theory Spec2Isabelle
  imports Complex_Main
begin

section \<open>Conventions of the embedding\<close>

text \<open>
  The module \<^verbatim>\<open>tfa/plotting.py\<close> is embedded function by function.
  \<^item> NumPy arrays of numbers are lists of reals: arithmetic is exact, so the rounding of
    floating point is not represented. Where the Comparison Renderer divides arrays
    (\<^verbatim>\<open>fitscale\<close>, the pull), the results are values of \<open>fval\<close>, which has the
    infinities and \<^verbatim>\<open>nan\<close> that NumPy yields for a zero divisor; the sign of a zero is
    not tracked. The division by the sum of the weights in \<^verbatim>\<open>draw\<close> (\<^verbatim>\<open>scale\<close>) raises
    nothing in NumPy and has some real value here; no property below depends on that
    value.
  \<^item> Every exception the Python raises is a value \<open>Inl e\<close> of the result type. The calls
    into the plotting library are taken not to raise.
  \<^item> Calls into the plotting library are not interpreted: each call is appended to a log
    kept in the figure, together with the surface it was made on.
\<close>

datatype error = ValueError | IndexError | ZeroDivisionError

section \<open>Label Formatter\<close>

text \<open>
  \<^verbatim>\<open>
  def label_title(title, units = None) :
    label = title
    if units : title += " (" + units + ")"
    return title
  \<close>
  \<open>units\<close> is \<open>None\<close> or a string; a string is truthy when it is not empty. The local
  \<open>label\<close> is bound and never read.
\<close>

definition label_title :: "string \<Rightarrow> string option \<Rightarrow> string" where
  "label_title title units =
     (case units of
        None \<Rightarrow> title
      | Some u \<Rightarrow> if u \<noteq> [] then title @ '' ('' @ u @ '')'' else title)"

text \<open>
  The two float formats of the f-strings, \<^verbatim>\<open>{binw}\<close> (the \<^verbatim>\<open>repr\<close> of the float) and
  \<^verbatim>\<open>{binw:g}\<close>, belong to the language runtime; they are parameters of the model.
\<close>

record float_fmt =
  fmt_repr :: "real \<Rightarrow> string"
  fmt_g :: "real \<Rightarrow> string"

text \<open>
  \<^verbatim>\<open>
  def y_label_title(range, bins, units = None) :
    binw = (range[1]-range[0])/bins
    if units == None :
      title = f"Entries/{binw}"
    else :
      title = f"Entries/({binw:g} {units})"
    return title
  \<close>
  The division of Python numbers by \<open>0\<close> raises.
\<close>

definition y_label_title ::
  "float_fmt \<Rightarrow> real \<times> real \<Rightarrow> int \<Rightarrow> string option \<Rightarrow> error + string" where
  "y_label_title F rng bins units =
     (if bins = 0 then Inl ZeroDivisionError
      else
        let binw = (snd rng - fst rng) / real_of_int bins in
        (case units of
           None \<Rightarrow> Inr (''Entries/'' @ fmt_repr F binw)
         | Some u \<Rightarrow> Inr (''Entries/('' @ fmt_g F binw @ '' '' @ u @ '')'')))"

section \<open>NumPy routines used by the module\<close>

text \<open>
  The values of a float array that a division has produced: a number, an infinity or
  \<^verbatim>\<open>nan\<close>. Under NumPy's default error state, and under
  \<^verbatim>\<open>np.errstate(divide='ignore')\<close>, a zero divisor raises nothing: a non-zero numerator
  gives an infinity of its sign and \<open>0 / 0\<close> gives \<^verbatim>\<open>nan\<close>.
\<close>

datatype fval = Finite real | PosInf | NegInf | NaN

text \<open>\<^verbatim>\<open>a / b\<close> for two numbers.\<close>

definition np_divide :: "real \<Rightarrow> real \<Rightarrow> fval" where
  "np_divide a b =
     (if b \<noteq> 0 then Finite (a / b)
      else if 0 < a then PosInf else if a < 0 then NegInf else NaN)"

text \<open>\<^verbatim>\<open>h * v\<close> for a number \<open>h\<close> and a value \<open>v\<close>: \<open>0 * inf\<close> is \<^verbatim>\<open>nan\<close>.\<close>

fun np_times :: "real \<Rightarrow> fval \<Rightarrow> fval" where
  "np_times h (Finite v) = Finite (h * v)"
| "np_times h PosInf = (if 0 < h then PosInf else if h < 0 then NegInf else NaN)"
| "np_times h NegInf = (if 0 < h then NegInf else if h < 0 then PosInf else NaN)"
| "np_times h NaN = NaN"

text \<open>\<^verbatim>\<open>d - v\<close> for a number \<open>d\<close> and a value \<open>v\<close>.\<close>

fun np_minus :: "real \<Rightarrow> fval \<Rightarrow> fval" where
  "np_minus d (Finite v) = Finite (d - v)"
| "np_minus d PosInf = NegInf"
| "np_minus d NegInf = PosInf"
| "np_minus d NaN = NaN"

text \<open>\<^verbatim>\<open>np.sqrt(d)\<close>: \<^verbatim>\<open>nan\<close> for a negative number.\<close>

definition np_sqrt :: "real \<Rightarrow> fval" where
  "np_sqrt d = (if d < 0 then NaN else Finite (sqrt d))"

text \<open>\<^verbatim>\<open>u / v\<close> for two values.\<close>

fun np_quotient :: "fval \<Rightarrow> fval \<Rightarrow> fval" where
  "np_quotient (Finite a) (Finite b) = np_divide a b"
| "np_quotient PosInf (Finite b) = (if 0 \<le> b then PosInf else NegInf)"
| "np_quotient NegInf (Finite b) = (if 0 \<le> b then NegInf else PosInf)"
| "np_quotient (Finite a) PosInf = Finite 0"
| "np_quotient (Finite a) NegInf = Finite 0"
| "np_quotient _ _ = NaN"

text \<open>\<^verbatim>\<open>astype(np.int_)\<close> truncates towards zero.\<close>

definition astype_int :: "real \<Rightarrow> int" where
  "astype_int v = (if 0 \<le> v then \<lfloor>v\<rfloor> else \<lceil>v\<rceil>)"

text \<open>
  Index-bucketed summation: every pair \<open>(k, w)\<close> adds \<open>w\<close> to cell \<open>k\<close>.
\<close>

fun accumulate :: "real list \<Rightarrow> (nat \<times> real) list \<Rightarrow> real list" where
  "accumulate H [] = H"
| "accumulate H ((k, w) # kws) = accumulate (H[k := H ! k + w]) kws"

text \<open>
  \<^verbatim>\<open>np.bincount(c, minlength = m, weights = w)\<close>: a negative index, a negative
  \<open>minlength\<close> and a weight array whose length differs from that of \<open>c\<close> raise
  \<^verbatim>\<open>ValueError\<close>; the result has \<open>max m (max c + 1)\<close> cells.
\<close>

definition np_bincount :: "int list \<Rightarrow> int \<Rightarrow> real list option \<Rightarrow> error + real list" where
  "np_bincount c minlength weights =
     (if list_ex (\<lambda>k. k < 0) c \<or> minlength < 0 then Inl ValueError
      else
        let n = nat (max minlength (fold max c (- 1) + 1)) in
        (case weights of
           None \<Rightarrow> Inr (accumulate (replicate n 0) (map (\<lambda>k. (nat k, 1)) c))
         | Some w \<Rightarrow>
             if length w \<noteq> length c then Inl ValueError
             else Inr (accumulate (replicate n 0) (zip (map nat c) w))))"

text \<open>
  \<^verbatim>\<open>flat.reshape(rows, cols)\<close> for the two bin counts. With a negative bin count the
  call \<^verbatim>\<open>bincount(...).reshape(...)\<close> of the histogrammer always raises
  \<^verbatim>\<open>ValueError\<close> (from a negative \<open>minlength\<close> or from the shape), so a negative
  dimension is an error here; the sizes must agree.
\<close>

definition np_reshape :: "real list \<Rightarrow> int \<Rightarrow> int \<Rightarrow> error + real list list" where
  "np_reshape flat rows cols =
     (if rows < 0 \<or> cols < 0 \<or> int (length flat) \<noteq> rows * cols then Inl ValueError
      else Inr (map (\<lambda>r. take (nat cols) (drop (r * nat cols) flat)) [0..<nat rows]))"

text \<open>\<^verbatim>\<open>np.linspace(start, stop, num)\<close>: \<open>num\<close> evenly spaced points, both ends included.\<close>

definition np_linspace :: "real \<Rightarrow> real \<Rightarrow> int \<Rightarrow> error + real list" where
  "np_linspace start stop num =
     (if num < 0 then Inl ValueError
      else Inr (map (\<lambda>k. start + real k * ((stop - start) / real_of_int (num - 1)))
                  [0..<nat num]))"

section \<open>Fast 2D Histogrammer\<close>

text \<open>
  \<^verbatim>\<open>
  def fasthist2d(xvals, yvals, bins, ranges, weights) :
    vals = (xvals, yvals)
    cuts = (vals[0]>=ranges[0][0]) & (vals[0]<ranges[0][1]) & (vals[1]>=ranges[1][0]) & (vals[1]<ranges[1][1])
    c = ((vals[0][cuts] - ranges[0][0]) / (ranges[0][1] - ranges[0][0]) * bins[0]).astype(np.int_)
    c += bins[0]*((vals[1][cuts] - ranges[1][0]) / (ranges[1][1] - ranges[1][0]) * bins[1]).astype(np.int_)
    H = np.bincount(c, minlength=bins[0]*bins[1], weights = weights).reshape(bins[1], bins[0])
    return H, np.linspace(ranges[0][0], ranges[0][1], bins[0]+1), np.linspace(ranges[1][0], ranges[1][1], bins[1]+1)
  \<close>
\<close>

type_synonym ranges2 = "(real \<times> real) \<times> (real \<times> real)"

text \<open>The mask \<open>cuts\<close>, for one sample.\<close>

definition cuts :: "ranges2 \<Rightarrow> real \<Rightarrow> real \<Rightarrow> bool" where
  "cuts ranges x y =
     (x \<ge> fst (fst ranges) \<and> x < snd (fst ranges) \<and> y \<ge> fst (snd ranges) \<and> y < snd (snd ranges))"

text \<open>
  The bin index of one coordinate on its axis, and the linear index of a sample. The
  quotient and the product are exact here; the program rounds them, so that for a
  coordinate just below the upper bound its index can be the bin count itself, which this
  value never is. At the lower bound both give 0.
\<close>

definition bin_index :: "real \<times> real \<Rightarrow> int \<Rightarrow> real \<Rightarrow> int" where
  "bin_index rng b v = astype_int ((v - fst rng) / (snd rng - fst rng) * real_of_int b)"

definition lin_index :: "int \<times> int \<Rightarrow> ranges2 \<Rightarrow> real \<Rightarrow> real \<Rightarrow> int" where
  "lin_index bins ranges x y =
     bin_index (fst ranges) (fst bins) x + fst bins * bin_index (snd ranges) (snd bins) y"

text \<open>
  The element-wise \<^verbatim>\<open>&\<close> of arrays of different lengths cannot be broadcast
  (\<^verbatim>\<open>ValueError\<close>), unless one of them has length 1: then the mask has the length of the
  other and indexing the short array with it raises \<^verbatim>\<open>IndexError\<close>, except that an
  empty mask is accepted (lengths 1 and 0): no sample is kept then.
  The weights are handed to \<^verbatim>\<open>np.bincount\<close> as they are, without the mask.
\<close>

definition fasthist2d ::
  "real list \<Rightarrow> real list \<Rightarrow> int \<times> int \<Rightarrow> ranges2 \<Rightarrow> real list option
     \<Rightarrow> error + (real list list \<times> real list \<times> real list)" where
  "fasthist2d xvals yvals bins ranges weights =
     (if length xvals \<noteq> length yvals \<and> length xvals + length yvals \<noteq> 1 then
        (if length xvals = 1 \<or> length yvals = 1 then Inl IndexError else Inl ValueError)
      else
        let kept = filter (\<lambda>(x, y). cuts ranges x y) (zip xvals yvals);
            c = map (\<lambda>(x, y). lin_index bins ranges x y) kept
        in
        (case np_bincount c (fst bins * snd bins) weights of
           Inl e \<Rightarrow> Inl e
         | Inr flat \<Rightarrow>
            (case np_reshape flat (snd bins) (fst bins) of
               Inl e \<Rightarrow> Inl e
             | Inr H \<Rightarrow>
                (case np_linspace (fst (fst ranges)) (snd (fst ranges)) (fst bins + 1) of
                   Inl e \<Rightarrow> Inl e
                 | Inr xedges \<Rightarrow>
                    (case np_linspace (fst (snd ranges)) (snd (snd ranges)) (snd bins + 1) of
                       Inl e \<Rightarrow> Inl e
                     | Inr yedges \<Rightarrow> Inr (H, xedges, yedges))))))"

text \<open>The sum over the grid, \<^verbatim>\<open>np.sum(H)\<close>.\<close>

definition grid_sum :: "real list list \<Rightarrow> real" where
  "grid_sum H = sum_list (map sum_list H)"

text \<open>
  \<^verbatim>\<open>np.histogram(a, bins = bins, range = range, weights = weights)\<close> for an integer
  number of bins: \<open>bins\<close> equal-width bins over the range, the last one closed on the right;
  samples outside the range are dropped. It raises \<^verbatim>\<open>ValueError\<close> when the weights do not
  have the shape of \<open>a\<close>, when \<open>bins < 1\<close> and when the range is inverted; an empty range
  \<open>(v, v)\<close> is widened to \<open>(v - 0.5, v + 0.5)\<close>. It returns the counts and the
  \<open>bins + 1\<close> edges.
\<close>

definition hist_range :: "real \<times> real \<Rightarrow> real \<times> real" where
  "hist_range rng =
     (if fst rng = snd rng then (fst rng - 1 / 2, snd rng + 1 / 2) else rng)"

definition hist_edges :: "int \<Rightarrow> real \<times> real \<Rightarrow> real list" where
  "hist_edges bins rng =
     map (\<lambda>k. fst (hist_range rng)
                + real k * ((snd (hist_range rng) - fst (hist_range rng)) / real (nat bins)))
       [0..<Suc (nat bins)]"

definition hist_bin :: "int \<Rightarrow> real \<times> real \<Rightarrow> real \<Rightarrow> nat" where
  "hist_bin bins rng x =
     (if x = snd (hist_range rng) then nat bins - 1
      else nat \<lfloor>(x - fst (hist_range rng)) / (snd (hist_range rng) - fst (hist_range rng))
                  * real (nat bins)\<rfloor>)"

definition np_histogram ::
  "real list \<Rightarrow> int \<Rightarrow> real \<times> real \<Rightarrow> real list option \<Rightarrow> error + (real list \<times> real list)" where
  "np_histogram a bins rng weights =
     (if (case weights of None \<Rightarrow> False | Some w \<Rightarrow> length w \<noteq> length a) then Inl ValueError
      else if bins < 1 then Inl ValueError
      else if snd rng < fst rng then Inl ValueError
      else
        let w = (case weights of None \<Rightarrow> replicate (length a) 1 | Some w \<Rightarrow> w);
            kept = filter (\<lambda>(x, wt). fst (hist_range rng) \<le> x \<and> x \<le> snd (hist_range rng))
                     (zip a w)
        in Inr (accumulate (replicate (nat bins) 0) (map (\<lambda>(x, wt). (hist_bin bins rng x, wt)) kept),
                hist_edges bins rng))"

text \<open>\<^verbatim>\<open>np.max\<close> and \<^verbatim>\<open>np.min\<close> over a whole grid; an empty array raises.\<close>

definition np_max :: "real list list \<Rightarrow> error + real" where
  "np_max a = (case concat a of [] \<Rightarrow> Inl ValueError | v # vs \<Rightarrow> Inr (fold max vs v))"

definition np_min :: "real list list \<Rightarrow> error + real" where
  "np_min a = (case concat a of [] \<Rightarrow> Inl ValueError | v # vs \<Rightarrow> Inr (fold min vs v))"

text \<open>\<^verbatim>\<open>np.meshgrid(xedges, yedges)\<close>.\<close>

definition np_meshgrid :: "real list \<Rightarrow> real list \<Rightarrow> real list list \<times> real list list" where
  "np_meshgrid xs ys = (replicate (length ys) xs, map (\<lambda>y. replicate (length xs) y) ys)"

text \<open>
  The truth value of an array, as \<^verbatim>\<open>if weights :\<close> takes it: an array of one element has
  the truth value of the element, every other array raises \<^verbatim>\<open>ValueError\<close> (for the empty
  array since NumPy 2.2; earlier versions gave false with a deprecation warning).
\<close>

definition array_truth :: "real list \<Rightarrow> error + bool" where
  "array_truth w = (case w of [v] \<Rightarrow> Inr (v \<noteq> 0) | _ \<Rightarrow> Inl ValueError)"

text \<open>The element-wise product of two arrays, with the broadcast of a one-element array.\<close>

definition np_mul :: "real list \<Rightarrow> real list \<Rightarrow> error + real list" where
  "np_mul a b =
     (if length a = length b then Inr (map (\<lambda>(u, v). u * v) (zip a b))
      else if length b = 1 then Inr (map (\<lambda>u. u * hd b) a)
      else if length a = 1 then Inr (map (\<lambda>v. hd a * v) b)
      else Inl ValueError)"

text \<open>Indexing a Python list or an array with a non-negative index.\<close>

definition nth_err :: "'a list \<Rightarrow> nat \<Rightarrow> error + 'a" where
  "nth_err xs i = (if i < length xs then Inr (xs ! i) else Inl IndexError)"

text \<open>A truthy optional string: neither \<open>None\<close> nor empty.\<close>

definition truthy :: "string option \<Rightarrow> bool" where
  "truthy s = (case s of None \<Rightarrow> False | Some t \<Rightarrow> t \<noteq> [])"

section \<open>Drawing surfaces\<close>

text \<open>
  A drawing surface is an opaque handle. The figure records the calls made on each surface
  in order, the surfaces it currently holds, and the next unused handle. Only the
  arguments the module computes are recorded; constant styling arguments
  (\<^verbatim>\<open>ha\<close>, \<^verbatim>\<open>loc\<close>, \<^verbatim>\<open>pad\<close>, \<^verbatim>\<open>marker\<close>, ...) are left out.
\<close>

type_synonym surface = nat

datatype color = Named string | Cycle nat

datatype call =
    Plot "real list" "fval list" "string option" color "real option"
  | FillBetween "real list" "fval list" real color real
  | Errorbar "real list" "real list" "real list" "string option" color real
  | Pcolormesh "real list list" "real list list" "real list list" string "(real \<times> real) option"
  | SetXlabel string
  | SetYlabel string
  | SetTitle string
  | SetYlimBottom real
  | SetYlimTop real
  | SetYscaleLog
  | Legend
  | LegendFrom surface
  | AxisOff
  | GridOff
  | Clear
  | Twinx surface
  | Colorbar surface
  | Remove

record figure =
  calls :: "(surface \<times> call) list"
  live :: "surface list"
  fresh :: surface

definition ax_call :: "figure \<Rightarrow> surface \<Rightarrow> call \<Rightarrow> figure" where
  "ax_call f ax c = f\<lparr>calls := calls f @ [(ax, c)]\<rparr>"

text \<open>\<^verbatim>\<open>ax.twinx()\<close> creates a surface in the figure and returns it.\<close>

definition twinx :: "figure \<Rightarrow> surface \<Rightarrow> surface \<times> figure" where
  "twinx f ax =
     (fresh f, f\<lparr>calls := calls f @ [(ax, Twinx (fresh f))],
                 live := live f @ [fresh f], fresh := Suc (fresh f)\<rparr>)"

text \<open>\<^verbatim>\<open>fig.colorbar(p, ax = ax)\<close> creates the surface of the colour bar.\<close>

definition colorbar :: "figure \<Rightarrow> surface \<Rightarrow> surface \<times> figure" where
  "colorbar f ax =
     (fresh f, f\<lparr>calls := calls f @ [(ax, Colorbar (fresh f))],
                 live := live f @ [fresh f], fresh := Suc (fresh f)\<rparr>)"

text \<open>\<^verbatim>\<open>a.remove()\<close> takes the surface out of the figure.\<close>

definition remove :: "figure \<Rightarrow> surface \<Rightarrow> figure" where
  "remove f a = f\<lparr>calls := calls f @ [(a, Remove)], live := removeAll a (live f)\<rparr>"

definition data_color :: color where "data_color = Named ''black''"
definition fit_color :: color where "fit_color = Named ''xkcd:azure''"
definition diff_color :: color where "diff_color = Named ''xkcd:red''"

section \<open>2D Distribution Renderer\<close>

text \<open>
  \<^verbatim>\<open>
  norm = None
  if log :
    vmax = np.max(counts)
    vmin = np.min(counts)
    if vmin <= 0. : vmin = 1.
    if vmax <= vmin : vmax = vmin
    norm = matplotlib.colors.LogNorm(vmin = vmin, vmax = vmax)
  \<close>
  The normalization is the pair \<open>(vmin, vmax)\<close> handed to \<^verbatim>\<open>LogNorm\<close>.
\<close>

definition log_norm :: "bool \<Rightarrow> real list list \<Rightarrow> error + (real \<times> real) option" where
  "log_norm logz counts =
     (if logz then
        (case np_max counts of
           Inl e \<Rightarrow> Inl e
         | Inr vmax0 \<Rightarrow>
            (case np_min counts of
               Inl e \<Rightarrow> Inl e
             | Inr vmin0 \<Rightarrow>
                let vmin = (if vmin0 \<le> 0 then 1 else vmin0);
                    vmax = (if vmax0 \<le> vmin then vmin else vmax0)
                in Inr (Some (vmin, vmax))))
      else Inr None)"

text \<open>
  \<^verbatim>\<open>plot_distr2d(xarr, yarr, bins, ranges, fig, ax, labels, cmap, log, ztitle, title,
  units, weights, colorbar)\<close>: the histogram, the normalization, the mesh, the labels, the
  title when it is truthy, and the colour bar when \<open>colorbar\<close> is set.
\<close>

definition plot_distr2d ::
  "real list \<Rightarrow> real list \<Rightarrow> int \<times> int \<Rightarrow> ranges2 \<Rightarrow> figure \<Rightarrow> surface \<Rightarrow> string \<times> string
     \<Rightarrow> string \<Rightarrow> bool \<Rightarrow> string option \<Rightarrow> string option \<Rightarrow> string option \<times> string option
     \<Rightarrow> real list option \<Rightarrow> bool \<Rightarrow> error + figure" where
  "plot_distr2d xarr yarr bins ranges fig ax labels cmap logz ztitle title units weights cbar =
     (case fasthist2d xarr yarr bins ranges weights of
        Inl e \<Rightarrow> Inl e
      | Inr (counts, xedges, yedges) \<Rightarrow>
         (case log_norm logz counts of
            Inl e \<Rightarrow> Inl e
          | Inr nrm \<Rightarrow>
             let XY = np_meshgrid xedges yedges;
                 f1 = ax_call fig ax (Pcolormesh (fst XY) (snd XY) counts cmap nrm);
                 f2 = ax_call f1 ax (SetXlabel (label_title (fst labels) (fst units)));
                 f3 = ax_call f2 ax (SetYlabel (label_title (snd labels) (snd units)));
                 f4 = (case title of
                         None \<Rightarrow> f3
                       | Some t \<Rightarrow> if t \<noteq> [] then ax_call f3 ax (SetTitle t) else f3);
                 zt = (if truthy ztitle then (case ztitle of Some z \<Rightarrow> z | None \<Rightarrow> ''Entries'')
                       else ''Entries'')
             in
             if cbar then
               let cb = colorbar f4 ax;
                   f5 = ax_call (snd cb) (fst cb) (SetYlabel zt)
               in Inr (if logz then ax_call f5 (fst cb) SetYscaleLog else f5)
             else Inr f4))"

section \<open>Comparison Renderer\<close>

text \<open>
  The keyword arguments of \<^verbatim>\<open>plot_distr1d_comparison\<close>. \<open>legend\<close> is \<open>None\<close>,
  \<open>False\<close> or a list of labels; \<open>cweights\<close> is \<open>None\<close> or a list of weight arrays;
  \<open>color\<close> is \<open>None\<close> or a list of colours.
\<close>

datatype legend_arg = LegendNone | LegendFalse | LegendLabels "string list"

record cmp_opts =
  opt_log :: bool
  opt_units :: "string option"
  opt_weights :: "real list option"
  opt_pull :: bool
  opt_cweights :: "real list list option"
  opt_title :: "string option"
  opt_legend :: legend_arg
  opt_color :: "color list option"
  opt_data_alpha :: real
  opt_legend_ax :: "surface option"

definition cmp_defaults :: cmp_opts where
  "cmp_defaults =
     \<lparr>opt_log = False, opt_units = None, opt_weights = None, opt_pull = False,
      opt_cweights = None, opt_title = None, opt_legend = LegendNone, opt_color = None,
      opt_data_alpha = 1, opt_legend_ax = None\<rparr>"

text \<open>\<^verbatim>\<open>np.array([h,h]).T.flatten()\<close>: every value twice.\<close>

definition step_dup :: "'a list \<Rightarrow> 'a list" where
  "step_dup h = concat (map (\<lambda>v. [v, v]) h)"

text \<open>\<^verbatim>\<open>np.array([left,right]).T.flatten()\<close>: the two edges of every bin.\<close>

definition step_edges :: "real list \<Rightarrow> real list \<Rightarrow> real list" where
  "step_edges left right = concat (map (\<lambda>(l, r). [l, r]) (zip left right))"

text \<open>\<^verbatim>\<open>(left+right)/2.\<close>: the centre of every bin.\<close>

definition bin_centers :: "real list \<Rightarrow> real list \<Rightarrow> real list" where
  "bin_centers left right = map (\<lambda>(l, r). (l + r) / 2) (zip left right)"

text \<open>
  \<^verbatim>\<open>fitscale = np.sum(datahist)/np.sum(fithist1)\<close>, and the product of a histogram with
  it (\<^verbatim>\<open>fithist1*fitscale\<close>, \<^verbatim>\<open>chist*fitscale\<close>). A model histogram of sum 0 gives an
  infinite factor or \<^verbatim>\<open>nan\<close>, and products that are infinite or \<^verbatim>\<open>nan\<close>.
\<close>

definition fitscale_of :: "real list \<Rightarrow> real list \<Rightarrow> fval" where
  "fitscale_of datahist fithist1 = np_divide (sum_list datahist) (sum_list fithist1)"

definition rescale :: "fval \<Rightarrow> real list \<Rightarrow> fval list" where
  "rescale fitscale h = map (\<lambda>v. np_times v fitscale) h"

text \<open>
  \<^verbatim>\<open>
  if weights : w2 = w*weights
  else : w2 = w
  \<close>
\<close>

definition effective_weight :: "real list \<Rightarrow> real list option \<Rightarrow> error + real list" where
  "effective_weight w weights =
     (case weights of
        None \<Rightarrow> Inr w
      | Some sw \<Rightarrow>
         (case array_truth sw of
            Inl e \<Rightarrow> Inl e
          | Inr t \<Rightarrow> if t then np_mul w sw else Inr w))"

text \<open>
  \<^verbatim>\<open>
  if color : this_color = color[i]
  else : this_color = f"C{i+1}"
  if legend : lab = legend[i]
  else : lab = None
  \<close>
\<close>

definition component_color :: "color list option \<Rightarrow> nat \<Rightarrow> error + color" where
  "component_color color i =
     (case color of
        None \<Rightarrow> Inr (Cycle (i + 1))
      | Some cs \<Rightarrow> if cs \<noteq> [] then nth_err cs i else Inr (Cycle (i + 1)))"

definition component_label :: "legend_arg \<Rightarrow> nat \<Rightarrow> error + string option" where
  "component_label legend i =
     (case legend of
        LegendLabels ls \<Rightarrow>
          if ls \<noteq> [] then (case nth_err ls i of Inl e \<Rightarrow> Inl e | Inr l \<Rightarrow> Inr (Some l))
          else Inr None
      | _ \<Rightarrow> Inr None)"

text \<open>
  The loop over the component weights,
  \<^verbatim>\<open>
  cxarr = None
  for i,w in enumerate(cweights) :
    if weights : w2 = w*weights
    else : w2 = w
    chist, cedges = np.histogram(fit, bins = bins, range = range, weights = w2)
    if cxarr is None :
      cleft,cright = cedges[:-1],cedges[1:]
      cxarr = (cleft+cright)/2.
    fitarr = chist*fitscale
    ...
    ax.plot(cxarr, fitarr, color = this_color, label = lab)
    ax.fill_between( cxarr, fitarr, 0., color = this_color, alpha = 0.1)
  \<close>
  with \<open>cxarr\<close> and \<open>i\<close> carried from one turn to the next.
\<close>

fun component_curves ::
  "figure \<Rightarrow> surface \<Rightarrow> real list \<Rightarrow> int \<Rightarrow> real \<times> real \<Rightarrow> real list option \<Rightarrow> fval
     \<Rightarrow> color list option \<Rightarrow> legend_arg \<Rightarrow> real list option \<Rightarrow> nat \<Rightarrow> real list list
     \<Rightarrow> error + figure" where
  "component_curves f ax fit bins rng weights fitscale color legend cxarr i [] = Inr f"
| "component_curves f ax fit bins rng weights fitscale color legend cxarr i (w # ws) =
     (case effective_weight w weights of
        Inl e \<Rightarrow> Inl e
      | Inr w2 \<Rightarrow>
         (case np_histogram fit bins rng (Some w2) of
            Inl e \<Rightarrow> Inl e
          | Inr (chist, cedges) \<Rightarrow>
             let cx = (case cxarr of
                         None \<Rightarrow> bin_centers (butlast cedges) (tl cedges)
                       | Some c \<Rightarrow> c);
                 fitarr = rescale fitscale chist
             in
             (case component_color color i of
                Inl e \<Rightarrow> Inl e
              | Inr this_color \<Rightarrow>
                 (case component_label legend i of
                    Inl e \<Rightarrow> Inl e
                  | Inr lab \<Rightarrow>
                     component_curves
                       (ax_call (ax_call f ax (Plot cx fitarr lab this_color None))
                          ax (FillBetween cx fitarr 0 this_color (1 / 10)))
                       ax fit bins rng weights fitscale color legend (Some cx) (Suc i) ws))))"

text \<open>
  The pull of every bin,
  \<^verbatim>\<open>
  with np.errstate(divide='ignore'):
    pullhist = (datahist-fithist)/np.sqrt(datahist)
    pullhist[datahist == 0] = 0
  \<close>
  The division raises nothing: in a bin without data the divisor is 0 and the quotient is
  an infinity or \<^verbatim>\<open>nan\<close>. The masked assignment then overwrites these bins with 0.
\<close>

definition pull_quotient :: "real list \<Rightarrow> fval list \<Rightarrow> fval list" where
  "pull_quotient datahist fithist =
     map (\<lambda>(d, f). np_quotient (np_minus d f) (np_sqrt d)) (zip datahist fithist)"

definition pull_hist :: "real list \<Rightarrow> fval list \<Rightarrow> fval list" where
  "pull_hist datahist fithist =
     (let pullhist = pull_quotient datahist fithist
      in map (\<lambda>(d, p). if d = 0 then Finite 0 else p) (zip datahist pullhist))"

text \<open>
  The block under \<^verbatim>\<open>if pull :\<close>: the secondary surface, its limits, the step line of the
  pull, and the one-element list that is returned.
\<close>

definition pull_panel ::
  "figure \<Rightarrow> surface \<Rightarrow> real list \<Rightarrow> real list \<Rightarrow> real list \<Rightarrow> fval list
     \<Rightarrow> surface list \<times> figure" where
  "pull_panel f ax left right datahist fithist =
     (let xarr = step_edges left right;
          pullarr = step_dup (pull_hist datahist fithist);
          tw = twinx f ax;
          ax2 = fst tw;
          f1 = ax_call (snd tw) ax2 (SetYlimBottom (- 10));
          f2 = ax_call f1 ax2 (SetYlimTop 10);
          f3 = ax_call f2 ax2 (Plot xarr pullarr None diff_color (Some (3 / 10)));
          f4 = ax_call f3 ax2 GridOff;
          f5 = ax_call f4 ax2 (SetYlabel ''Pull'')
      in ([ax2], f5))"

text \<open>
  The calls between the component curves and the pull: the data points with their
  \<open>sqrt\<close> errors, the legend, the lower limit, the axis titles and the title.
  \<^verbatim>\<open>
  xarr = (left+right)/2.
  ax.errorbar(xarr, datahist, np.sqrt(datahist), label = dlab, color = data_color, marker = ".",
              linestyle = '', alpha = data_alpha)
  if not legend == False :
    if legend_ax :
      h, l = ax.get_legend_handles_labels()
      legend_ax.legend(h, l, borderaxespad=0)
      legend_ax.axis("off")
    else : ax.legend(loc = "best")
  ax.set_ylim(bottom = 0.)
  ax.set_xlabel(label_title(label, units), ha='right', x=1.0)
  ax.set_ylabel(y_label_title(range, bins, units), ha='right', y=1.0)
  if title is None :
    ax.set_title(label + r" distribution")
  elif title :
    ax.set_title(title)
  \<close>
  \<open>yt\<close> is the value of \<^verbatim>\<open>y_label_title(range, bins, units)\<close>.
\<close>

definition comparison_frame ::
  "figure \<Rightarrow> surface \<Rightarrow> string \<Rightarrow> cmp_opts \<Rightarrow> real list \<Rightarrow> real list \<Rightarrow> real list \<Rightarrow> string
     \<Rightarrow> figure" where
  "comparison_frame f2 ax label opts left right datahist yt =
     (let dlab = (if opt_legend opts \<noteq> LegendFalse then Some ''Data'' else None);
          f3 = ax_call f2 ax
                 (Errorbar (bin_centers left right) datahist (map sqrt datahist) dlab
                    data_color (opt_data_alpha opts));
          f4 = (if opt_legend opts \<noteq> LegendFalse then
                  (case opt_legend_ax opts of
                     Some lax \<Rightarrow> ax_call (ax_call f3 lax (LegendFrom ax)) lax AxisOff
                   | None \<Rightarrow> ax_call f3 ax Legend)
                else f3);
          f5 = ax_call f4 ax (SetYlimBottom 0);
          f6 = ax_call f5 ax (SetXlabel (label_title label (opt_units opts)));
          f7 = ax_call f6 ax (SetYlabel yt)
      in (case opt_title opts of
            None \<Rightarrow> ax_call f7 ax (SetTitle (label @ '' distribution''))
          | Some t \<Rightarrow> if t \<noteq> [] then ax_call f7 ax (SetTitle t) else f7))"

text \<open>
  \<^verbatim>\<open>plot_distr1d_comparison(data, fit, bins, range, ax, label, ...)\<close>: the two histograms,
  the scaled model as a step line, the component curves when \<open>cweights\<close> is a list, the
  calls of \<open>comparison_frame\<close>, and the pull when requested. The result is the list of
  surfaces it returns, with the figure as the calls have left it. (An exception discards
  the figure, so the one call that can raise after the first drawing call,
  \<open>y_label_title\<close>, is evaluated before the calls around it are logged.)
\<close>

definition plot_distr1d_comparison ::
  "float_fmt \<Rightarrow> real list \<Rightarrow> real list \<Rightarrow> int \<Rightarrow> real \<times> real \<Rightarrow> figure \<Rightarrow> surface \<Rightarrow> string
     \<Rightarrow> cmp_opts \<Rightarrow> error + (surface list \<times> figure)" where
  "plot_distr1d_comparison F data fit bins rng fig ax label opts =
     (case np_histogram data bins rng None of
        Inl e \<Rightarrow> Inl e
      | Inr (datahist, _) \<Rightarrow>
      (case np_histogram fit bins rng (opt_weights opts) of
        Inl e \<Rightarrow> Inl e
      | Inr (fithist1, edges) \<Rightarrow>
         let flab = (if opt_legend opts \<noteq> LegendFalse then Some ''Fit'' else None);
             fitscale = fitscale_of datahist fithist1;
             fithist = rescale fitscale fithist1;
             left = butlast edges;
             right = tl edges;
             f1 = ax_call fig ax
                    (Plot (step_edges left right) (step_dup fithist) flab fit_color None)
         in
         (case (case opt_cweights opts of
                  None \<Rightarrow> Inr f1
                | Some cws \<Rightarrow>
                    component_curves f1 ax fit bins rng (opt_weights opts) fitscale
                      (opt_color opts) (opt_legend opts) None 0 cws) of
            Inl e \<Rightarrow> Inl e
          | Inr f2 \<Rightarrow>
             (case y_label_title F rng bins (opt_units opts) of
                Inl e \<Rightarrow> Inl e
              | Inr yt \<Rightarrow>
                 if opt_pull opts then
                   Inr (pull_panel (comparison_frame f2 ax label opts left right datahist yt)
                          ax left right datahist fithist)
                 else Inr ([], comparison_frame f2 ax label opts left right datahist yt)))))"

section \<open>Multidimensional Grid Display\<close>

text \<open>
  A two-dimensional sample array is kept by columns: \<open>shape0\<close> is \<^verbatim>\<open>a.shape[0]\<close>, the
  number of columns is \<^verbatim>\<open>a.shape[1]\<close>, and \<^verbatim>\<open>a[:,i]\<close> is column \<open>i\<close>.
\<close>

record array2d =
  shape0 :: nat
  columns :: "real list list"

definition column :: "array2d \<Rightarrow> nat \<Rightarrow> error + real list" where
  "column a i = nth_err (columns a) i"

text \<open>\<^verbatim>\<open>axes[r, c]\<close> on the grid of surfaces.\<close>

definition axes_at :: "surface list list \<Rightarrow> nat \<Rightarrow> nat \<Rightarrow> error + surface" where
  "axes_at axes r c =
     (case nth_err axes r of Inl e \<Rightarrow> Inl e | Inr row \<Rightarrow> nth_err row c)"

text \<open>
  The attributes of \<^verbatim>\<open>MultidimDisplay\<close>; the figure the object draws on is kept with
  them.
\<close>

record display =
  md_dim :: nat
  md_data :: array2d
  md_norm :: array2d
  md_bins :: "int list"
  md_ranges :: "(real \<times> real) list"
  md_labels :: "string list"
  md_fig :: figure
  md_axes :: "surface list list"
  md_units :: "string option list option"
  md_cmap :: string
  md_size :: nat
  md_first :: bool
  md_newaxes :: "surface list"

text \<open>
  The pairs \<open>(i, j)\<close> of
  \<^verbatim>\<open>for i in range(dim) : for j in range(i) :\<close>, in the order of the loops, each with
  the running counter \<open>n\<close>.
\<close>

definition panel_pairs :: "nat \<Rightarrow> (nat \<times> nat \<times> nat) list" where
  "panel_pairs d =
     (let ps = concat (map (\<lambda>i. map (\<lambda>j. (i, j)) [0..<i]) [0..<d])
      in zip [0..<length ps] ps)"

text \<open>The panel of pair number \<open>n\<close> in the constructor, and the one in \<^verbatim>\<open>draw\<close>.\<close>

definition init_panel :: "nat \<Rightarrow> nat \<Rightarrow> nat \<times> nat" where
  "init_panel d n =
     (if d mod 2 = 0 then (n div (d div 2) + 1, 2 * (n mod (d div 2)))
      else (2 * (n div d) + 1, n mod d))"

definition draw_panel :: "nat \<Rightarrow> nat \<Rightarrow> nat \<times> nat" where
  "draw_panel d n =
     (if d mod 2 = 0 then (n div (d div 2) + 1, 2 * (n mod (d div 2)) + 1)
      else (2 * (n div d) + 2, n mod d))"

text \<open>
  The loop of the constructor:
  \<^verbatim>\<open>
  plot_distr2d(data[:,i], data[:,j], bins = (bins[i], bins[j]),
               ranges = (ranges[i], ranges[j]), fig = fig, ax = ax1,
               labels = (labels[i], labels[j]), cmap = cmap )
  \<close>
\<close>

fun init_panels :: "display \<Rightarrow> figure \<Rightarrow> (nat \<times> nat \<times> nat) list \<Rightarrow> error + figure" where
  "init_panels s f [] = Inr f"
| "init_panels s f ((n, i, j) # ps) =
     (case axes_at (md_axes s) (fst (init_panel (md_dim s) n)) (snd (init_panel (md_dim s) n)) of
        Inl e \<Rightarrow> Inl e
      | Inr ax1 \<Rightarrow>
     (case column (md_data s) i of Inl e \<Rightarrow> Inl e | Inr xi \<Rightarrow>
     (case column (md_data s) j of Inl e \<Rightarrow> Inl e | Inr xj \<Rightarrow>
     (case nth_err (md_bins s) i of Inl e \<Rightarrow> Inl e | Inr bi \<Rightarrow>
     (case nth_err (md_bins s) j of Inl e \<Rightarrow> Inl e | Inr bj \<Rightarrow>
     (case nth_err (md_ranges s) i of Inl e \<Rightarrow> Inl e | Inr ri \<Rightarrow>
     (case nth_err (md_ranges s) j of Inl e \<Rightarrow> Inl e | Inr rj \<Rightarrow>
     (case nth_err (md_labels s) i of Inl e \<Rightarrow> Inl e | Inr li \<Rightarrow>
     (case nth_err (md_labels s) j of Inl e \<Rightarrow> Inl e | Inr lj \<Rightarrow>
     (case plot_distr2d xi xj (bi, bj) (ri, rj) f ax1 (li, lj) (md_cmap s)
             False None None (None, None) None True of
        Inl e \<Rightarrow> Inl e
      | Inr f' \<Rightarrow> init_panels s f' ps))))))))))"

text \<open>
  \<^verbatim>\<open>MultidimDisplay.__init__(self, data, norm, bins, ranges, labels, fig, axes, units, cmap)\<close>.
\<close>

definition construct ::
  "array2d \<Rightarrow> array2d \<Rightarrow> int list \<Rightarrow> (real \<times> real) list \<Rightarrow> string list \<Rightarrow> figure
     \<Rightarrow> surface list list \<Rightarrow> string option list option \<Rightarrow> string \<Rightarrow> error + display" where
  "construct data nrm bins ranges labels fig axes units cmap =
     (let s = \<lparr>md_dim = length (columns data), md_data = data, md_norm = nrm, md_bins = bins,
               md_ranges = ranges, md_labels = labels, md_fig = fig, md_axes = axes,
               md_units = units, md_cmap = cmap, md_size = shape0 data, md_first = True,
               md_newaxes = []\<rparr>
      in case init_panels s fig (panel_pairs (md_dim s)) of
           Inl e \<Rightarrow> Inl e
         | Inr f \<Rightarrow> Inr (s\<lparr>md_fig := f\<rparr>))"

text \<open>
  The first loop of \<^verbatim>\<open>draw\<close>:
  \<^verbatim>\<open>
  for i in range(self.dim) :
    self.axes[0,i].clear()
    newax = plot_distr1d_comparison(self.data[:,i], self.norm[:,i], self.bins[i],
                            self.ranges[i], self.axes[0,i], self.labels[i],
                            weights = scale*weights, pull = True, data_alpha = 0.3)
    self.newaxes += newax
  \<close>
  \<open>sw\<close> is \<^verbatim>\<open>scale*weights\<close>; the list of new surfaces is carried along.
\<close>

fun draw_1d ::
  "float_fmt \<Rightarrow> display \<Rightarrow> real list \<Rightarrow> figure \<Rightarrow> surface list \<Rightarrow> nat list
     \<Rightarrow> error + (surface list \<times> figure)" where
  "draw_1d F s sw f newaxes [] = Inr (newaxes, f)"
| "draw_1d F s sw f newaxes (i # is) =
     (case axes_at (md_axes s) 0 i of Inl e \<Rightarrow> Inl e | Inr ax \<Rightarrow>
     (case column (md_data s) i of Inl e \<Rightarrow> Inl e | Inr di \<Rightarrow>
     (case column (md_norm s) i of Inl e \<Rightarrow> Inl e | Inr ni \<Rightarrow>
     (case nth_err (md_bins s) i of Inl e \<Rightarrow> Inl e | Inr bi \<Rightarrow>
     (case nth_err (md_ranges s) i of Inl e \<Rightarrow> Inl e | Inr ri \<Rightarrow>
     (case nth_err (md_labels s) i of Inl e \<Rightarrow> Inl e | Inr li \<Rightarrow>
     (case plot_distr1d_comparison F di ni bi ri (ax_call f ax Clear) ax li
             (cmp_defaults\<lparr>opt_weights := Some sw, opt_pull := True,
                            opt_data_alpha := 3 / 10\<rparr>) of
        Inl e \<Rightarrow> Inl e
      | Inr (newax, f') \<Rightarrow> draw_1d F s sw f' (newaxes @ newax) is)))))))"

text \<open>
  The second loop of \<^verbatim>\<open>draw\<close>:
  \<^verbatim>\<open>
  ax2.clear()
  plot_distr2d(self.norm[:,i], self.norm[:,j], bins = (self.bins[i], self.bins[j]),
               ranges = (self.ranges[i], self.ranges[j]), fig = self.fig, ax = ax2,
               labels = (self.labels[i], self.labels[j]), cmap = self.cmap,
               weights = scale*weights, colorbar = self.first )
  \<close>
\<close>

fun draw_2d ::
  "display \<Rightarrow> real list \<Rightarrow> figure \<Rightarrow> (nat \<times> nat \<times> nat) list \<Rightarrow> error + figure" where
  "draw_2d s sw f [] = Inr f"
| "draw_2d s sw f ((n, i, j) # ps) =
     (case axes_at (md_axes s) (fst (draw_panel (md_dim s) n)) (snd (draw_panel (md_dim s) n)) of
        Inl e \<Rightarrow> Inl e
      | Inr ax2 \<Rightarrow>
     (case column (md_norm s) i of Inl e \<Rightarrow> Inl e | Inr xi \<Rightarrow>
     (case column (md_norm s) j of Inl e \<Rightarrow> Inl e | Inr xj \<Rightarrow>
     (case nth_err (md_bins s) i of Inl e \<Rightarrow> Inl e | Inr bi \<Rightarrow>
     (case nth_err (md_bins s) j of Inl e \<Rightarrow> Inl e | Inr bj \<Rightarrow>
     (case nth_err (md_ranges s) i of Inl e \<Rightarrow> Inl e | Inr ri \<Rightarrow>
     (case nth_err (md_ranges s) j of Inl e \<Rightarrow> Inl e | Inr rj \<Rightarrow>
     (case nth_err (md_labels s) i of Inl e \<Rightarrow> Inl e | Inr li \<Rightarrow>
     (case nth_err (md_labels s) j of Inl e \<Rightarrow> Inl e | Inr lj \<Rightarrow>
     (case plot_distr2d xi xj (bi, bj) (ri, rj) (ax_call f ax2 Clear) ax2 (li, lj) (md_cmap s)
             False None None (None, None) (Some sw) (md_first s) of
        Inl e \<Rightarrow> Inl e
      | Inr f' \<Rightarrow> draw_2d s sw f' ps))))))))))"

text \<open>
  \<^verbatim>\<open>
  def draw(self, weights) :
    scale = float(self.size)/np.sum(weights)
    for a in self.newaxes : a.remove()
    self.newaxes = []
    ... the two loops ...
    self.first = False
  \<close>
  A call that raises leaves no state to continue from: the result is the error.
\<close>

definition draw :: "float_fmt \<Rightarrow> display \<Rightarrow> real list \<Rightarrow> error + display" where
  "draw F s weights =
     (let scale = real (md_size s) / sum_list weights;
          sw = map (\<lambda>w. scale * w) weights;
          f0 = fold (\<lambda>a f. remove f a) (md_newaxes s) (md_fig s)
      in
      case draw_1d F s sw f0 [] [0..<md_dim s] of
        Inl e \<Rightarrow> Inl e
      | Inr (newaxes, f1) \<Rightarrow>
         (case draw_2d s sw f1 (panel_pairs (md_dim s)) of
            Inl e \<Rightarrow> Inl e
          | Inr f2 \<Rightarrow> Inr (s\<lparr>md_fig := f2, md_newaxes := newaxes, md_first := False\<rparr>)))"

text \<open>Successive calls of \<^verbatim>\<open>draw\<close>, one for each weight array.\<close>

fun draws :: "float_fmt \<Rightarrow> display \<Rightarrow> real list list \<Rightarrow> error + display" where
  "draws F s [] = Inr s"
| "draws F s (w # ws) = (case draw F s w of Inl e \<Rightarrow> Inl e | Inr s' \<Rightarrow> draws F s' ws)"

section \<open>The specification's wording, and inputs for the examples\<close>

text \<open>
  The colour limits as the specification words them: \<open>vmin\<close> is the minimum positive
  count, set to 1 if the minimum is not positive; \<open>vmax\<close> is the maximum count, set to
  \<open>vmin\<close> if it is not greater.
\<close>

definition spec_vmin :: "real list list \<Rightarrow> real" where
  "spec_vmin counts =
     (if Min (set (concat counts)) \<le> 0 then 1
      else Min (set (filter (\<lambda>c. 0 < c) (concat counts))))"

definition spec_vmax :: "real list list \<Rightarrow> real" where
  "spec_vmax counts =
     (if spec_vmin counts < Max (set (concat counts)) then Max (set (concat counts))
      else spec_vmin counts)"

text \<open>The colour bars that have been attached to a figure, read off its log.\<close>

fun is_colorbar :: "call \<Rightarrow> bool" where
  "is_colorbar (Colorbar a) = True"
| "is_colorbar _ = False"

definition colorbar_calls :: "figure \<Rightarrow> (surface \<times> call) list" where
  "colorbar_calls f = filter (\<lambda>(ax, c). is_colorbar c) (calls f)"

text \<open>
  The calls logged by the comparison of the data \<open>[0.5]\<close> with the model \<open>[0.5, 1.5]\<close>
  in two bins over \<open>(0, 2)\<close>, with the one component weight array \<open>[1, 1]\<close>.
\<close>

definition ex_component_calls :: "(surface \<times> call) list" where
  "ex_component_calls =
     [(0, Plot [0, 1, 1, 2]
            [Finite (1 / 2), Finite (1 / 2), Finite (1 / 2), Finite (1 / 2)]
            (Some ''Fit'') fit_color None),
      (0, Plot [1 / 2, 3 / 2] [Finite (1 / 2), Finite (1 / 2)] None (Cycle 1) None),
      (0, FillBetween [1 / 2, 3 / 2] [Finite (1 / 2), Finite (1 / 2)] 0 (Cycle 1) (1 / 10)),
      (0, Errorbar [1 / 2, 3 / 2] [1, 0] [1, 0] (Some ''Data'') data_color 1),
      (0, Legend),
      (0, SetYlimBottom 0),
      (0, SetXlabel ''m''),
      (0, SetYlabel ''Entries/1.0''),
      (0, SetTitle ''m distribution'')]"

text \<open>A float format for the examples: bin width 1 prints as \<open>1.0\<close> and as \<open>1\<close>.\<close>

definition ex_fmt :: float_fmt where
  "ex_fmt = \<lparr>fmt_repr = (\<lambda>_. ''1.0''), fmt_g = (\<lambda>_. ''1'')\<rparr>"

text \<open>A figure holding a grid of two rows and two columns of surfaces.\<close>

definition ex_fig :: figure where
  "ex_fig = \<lparr>calls = [], live = [0, 1, 2, 3], fresh = 4\<rparr>"

text \<open>
  A display over two-dimensional data with one sample, on the grid of \<open>ex_fig\<close>, as the
  constructor leaves it, and after one and two calls of \<^verbatim>\<open>draw\<close>.
\<close>

definition ex_data :: array2d where
  "ex_data = \<lparr>shape0 = 1, columns = [[1 / 2], [1 / 2]]\<rparr>"

definition ex_display0 :: display where
  "ex_display0 =
     projr (construct ex_data ex_data [1, 1] [(0, 1), (0, 1)] [''x'', ''y''] ex_fig
              [[0, 1], [2, 3]] None ''jet'')"

definition ex_display1 :: display where
  "ex_display1 = projr (draw ex_fmt ex_display0 [1])"

definition ex_display2 :: display where
  "ex_display2 = projr (draw ex_fmt ex_display1 [1])"

section \<open>Properties of the Label Formatter\<close>

text \<open>
  C2 (as stated): \<open>label_title\<close> returns the name unchanged for every units value, so that
  the returned string never contains the units. This fails: with the name \<open>m\<close> and the
  units \<open>GeV\<close> the function returns \<open>m (GeV)\<close>.
\<close>

theorem label_title_units_counterexample:
  "label_title ''m'' (Some ''GeV'') = ''m (GeV)'' \<and> label_title ''m'' (Some ''GeV'') \<noteq> ''m''"
  by (simp add: label_title_def)

text \<open>
  C2 (amended): \<open>label_title\<close> returns the name unchanged when the units are \<open>None\<close> or
  empty, and the name followed by a space and the units in brackets when the units are
  not empty. (The local copy \<open>label\<close> is the value that is never used.)
\<close>

theorem label_title_appends_units:
  "((units = None \<or> units = Some []) \<longrightarrow> label_title name units = name) \<and>
   (\<forall>u. units = Some u \<and> u \<noteq> [] \<longrightarrow> label_title name units = name @ '' ('' @ u @ '')'')"
  by (auto simp: label_title_def)

theorem label_title_appends_units_witness:
  "label_title ''m'' None = ''m'' \<and> label_title ''m'' (Some ''GeV'') = ''m (GeV)''"
  using label_title_appends_units [of None "''m''"]
    label_title_appends_units [of "Some ''GeV''" "''m''"]
  by simp

text \<open>
  C10: \<open>y_label_title\<close> takes the no-units format only for \<open>None\<close>. For a non-zero bin
  count, the empty string as units takes the units branch and yields
  \<open>Entries/(w )\<close> with \<open>w\<close> the bin width in \<open>g\<close> format, as every string \<open>u\<close> yields
  \<open>Entries/(w u)\<close>; \<open>None\<close> yields \<open>Entries/\<close> followed by the \<open>repr\<close> of the width, and
  the two differ as long as that \<open>repr\<close> does not begin with an opening bracket (no
  \<open>repr\<close> of a float does).
\<close>

theorem y_label_title_units_not_none:
  assumes "bins \<noteq> 0"
  shows "y_label_title F rng bins (Some [])
           = Inr (''Entries/('' @ fmt_g F ((snd rng - fst rng) / real_of_int bins) @ '' )'')
       \<and> y_label_title F rng bins (Some u)
           = Inr (''Entries/('' @ fmt_g F ((snd rng - fst rng) / real_of_int bins)
                    @ '' '' @ u @ '')'')
       \<and> y_label_title F rng bins None
           = Inr (''Entries/'' @ fmt_repr F ((snd rng - fst rng) / real_of_int bins))
       \<and> (take 1 (fmt_repr F ((snd rng - fst rng) / real_of_int bins)) \<noteq> ''(''
            \<longrightarrow> y_label_title F rng bins (Some []) \<noteq> y_label_title F rng bins None)"
  using assms by (auto simp: y_label_title_def Let_def dest!: sym [of "CHR ''(''  # _"])

theorem y_label_title_units_not_none_witness:
  "y_label_title \<lparr>fmt_repr = (\<lambda>_. ''2.0''), fmt_g = (\<lambda>_. ''2'')\<rparr> (0, 10) 5 (Some [])
     = Inr ''Entries/(2 )''
   \<and> y_label_title \<lparr>fmt_repr = (\<lambda>_. ''2.0''), fmt_g = (\<lambda>_. ''2'')\<rparr> (0, 10) 5 (Some [])
     \<noteq> Inr ''Entries/2.0''"
  using y_label_title_units_not_none
    [of 5 "\<lparr>fmt_repr = (\<lambda>_. ''2.0''), fmt_g = (\<lambda>_. ''2'')\<rparr>" "(0, 10)" "[]"]
  by simp

section \<open>Properties of the colour limits\<close>

lemma np_max_Max: "concat a \<noteq> [] \<Longrightarrow> np_max a = Inr (Max (set (concat a)))"
proof -
  assume "concat a \<noteq> []"
  then obtain v vs where c: "concat a = v # vs" by (cases "concat a") auto
  have "fold max vs v = Max (set (v # vs))" by (rule Max.set_eq_fold [symmetric])
  then show ?thesis by (simp add: np_max_def c del: set_simps)
qed

lemma np_min_Min: "concat a \<noteq> [] \<Longrightarrow> np_min a = Inr (Min (set (concat a)))"
proof -
  assume "concat a \<noteq> []"
  then obtain v vs where c: "concat a = v # vs" by (cases "concat a") auto
  have "fold min vs v = Min (set (v # vs))" by (rule Min.set_eq_fold [symmetric])
  then show ?thesis by (simp add: np_min_def c del: set_simps)
qed

lemma Min_pos_filter:
  assumes "xs \<noteq> []" "0 < Min (set xs)"
  shows "Min (set (filter (\<lambda>c. 0 < c) xs)) = Min (set (xs::real list))"
proof -
  have "\<forall>x\<in>set xs. 0 < x" using assms by (metis List.finite_set Min_le less_le_trans)
  then have "filter (\<lambda>c. 0 < c) xs = xs" by (simp add: filter_id_conv)
  then show ?thesis by simp
qed

lemma log_norm_spec:
  assumes "concat counts \<noteq> []"
  shows "log_norm True counts = Inr (Some (spec_vmin counts, spec_vmax counts))"
proof -
  have vmin: "(if Min (set (concat counts)) \<le> 0 then 1 else Min (set (concat counts)))
                = spec_vmin counts"
    unfolding spec_vmin_def using Min_pos_filter [OF assms] by (simp del: set_concat)
  have vmax: "(if Max (set (concat counts)) \<le> spec_vmin counts then spec_vmin counts
               else Max (set (concat counts))) = spec_vmax counts"
    unfolding spec_vmax_def by (simp del: set_concat)
  have "log_norm True counts =
          Inr (Some ((if Min (set (concat counts)) \<le> 0 then 1 else Min (set (concat counts))),
                (if Max (set (concat counts))
                      \<le> (if Min (set (concat counts)) \<le> 0 then 1 else Min (set (concat counts)))
                 then (if Min (set (concat counts)) \<le> 0 then 1 else Min (set (concat counts)))
                 else Max (set (concat counts)))))"
    by (simp add: log_norm_def np_max_Max [OF assms] np_min_Min [OF assms] Let_def
             del: set_concat)
  then show ?thesis unfolding vmin vmax .
qed

lemma spec_limits_ordered:
  assumes "concat counts \<noteq> []"
  shows "0 < spec_vmin counts \<and> spec_vmin counts \<le> spec_vmax counts"
  unfolding spec_vmax_def spec_vmin_def using Min_pos_filter [OF assms]
  by (simp del: set_concat)

lemma calls_ax_call [simp]: "calls (ax_call f ax c) = calls f @ [(ax, c)]"
  and live_ax_call [simp]: "live (ax_call f ax c) = live f"
  and fresh_ax_call [simp]: "fresh (ax_call f ax c) = fresh f"
  by (simp_all add: ax_call_def)

text \<open>
  C4: with log scaling requested, the renderer hands to the mesh a logarithmic
  normalization over \<open>[vmin, vmax]\<close>, where \<open>vmin\<close> is the minimum positive count of the
  grid, or 1 if the minimum of the grid is not positive, and \<open>vmax\<close> is the maximum count,
  or \<open>vmin\<close> if it is not greater; the limits are positive and ordered.
\<close>

theorem plot_distr2d_log_norm:
  assumes "fasthist2d xarr yarr bins ranges weights = Inr (counts, xedges, yedges)"
      and "concat counts \<noteq> []"
  shows "\<exists>f'. plot_distr2d xarr yarr bins ranges fig ax labels cmap True ztitle title units
                 weights cbar = Inr f'
           \<and> (ax, Pcolormesh (fst (np_meshgrid xedges yedges)) (snd (np_meshgrid xedges yedges))
                   counts cmap (Some (spec_vmin counts, spec_vmax counts))) \<in> set (calls f')
           \<and> 0 < spec_vmin counts \<and> spec_vmin counts \<le> spec_vmax counts"
  using assms spec_limits_ordered [OF assms(2)]
  by (simp add: plot_distr2d_def log_norm_spec Let_def colorbar_def split: option.split
           del: set_concat)

lemma ex_hist:
  "fasthist2d [1 / 2, 1 / 2] [1 / 2, 1 / 2] (2, 1) ((0, 2), (0, 1)) None
     = Inr ([[2, 0]], [0, 1, 2], [0, 1])"
  by code_simp

theorem plot_distr2d_log_norm_witness:
  "\<exists>f'. plot_distr2d [1 / 2, 1 / 2] [1 / 2, 1 / 2] (2, 1) ((0, 2), (0, 1)) ex_fig 0
           (''x'', ''y'') ''jet'' True None None (None, None) None True = Inr f'
      \<and> (0, Pcolormesh [[0, 1, 2], [0, 1, 2]] [[0, 0, 0], [1, 1, 1]] [[2, 0]] ''jet''
              (Some (1, 2))) \<in> set (calls f')"
  using plot_distr2d_log_norm
    [OF ex_hist, of ex_fig 0 "(''x'', ''y'')" "''jet''" None None "(None, None)" True]
  by (simp add: np_meshgrid_def spec_vmin_def spec_vmax_def)

section \<open>Effects of the renderers on the figure\<close>

lemma twinx_simps [simp]:
  "fst (twinx f ax) = fresh f"
  "calls (snd (twinx f ax)) = calls f @ [(ax, Twinx (fresh f))]"
  "live (snd (twinx f ax)) = live f @ [fresh f]"
  "fresh (snd (twinx f ax)) = Suc (fresh f)"
  by (simp_all add: twinx_def)

lemma colorbar_simps [simp]:
  "fst (colorbar f ax) = fresh f"
  "calls (snd (colorbar f ax)) = calls f @ [(ax, Colorbar (fresh f))]"
  "live (snd (colorbar f ax)) = live f @ [fresh f]"
  "fresh (snd (colorbar f ax)) = Suc (fresh f)"
  by (simp_all add: colorbar_def)

lemma remove_simps [simp]:
  "calls (remove f a) = calls f @ [(a, Remove)]"
  "live (remove f a) = removeAll a (live f)"
  "fresh (remove f a) = fresh f"
  by (simp_all add: remove_def)

lemma component_curves_effect:
  "component_curves f ax fit bins rng weights fitscale color legend cxarr i ws = Inr f'
   \<Longrightarrow> live f' = live f \<and> fresh f' = fresh f
       \<and> (\<exists>ext. calls f' = calls f @ ext \<and> (\<forall>(a, c)\<in>set ext. c \<noteq> Remove \<and> \<not> is_colorbar c))"
proof (induction ws arbitrary: f cxarr i)
  case Nil
  then show ?case by simp
next
  case (Cons w ws)
  from Cons.prems obtain f1 cx' where
    step: "component_curves f1 ax fit bins rng weights fitscale color legend cx' (Suc i) ws = Inr f'"
    and f1: "live f1 = live f" "fresh f1 = fresh f"
       "\<exists>c1 c2. calls f1 = calls f @ [(ax, c1), (ax, c2)] \<and> c1 \<noteq> Remove \<and> c2 \<noteq> Remove \<and> \<not> is_colorbar c1 \<and> \<not> is_colorbar c2"
    by (auto simp: Let_def split: sum.splits prod.splits)
  from Cons.IH [OF step] f1 show ?case by auto
qed

lemma pull_panel_effect:
  "pull_panel f ax left right datahist fithist =
     ([fresh f],
      f\<lparr>calls := calls f @ [(ax, Twinx (fresh f)), (fresh f, SetYlimBottom (- 10)), (fresh f, SetYlimTop 10),
          (fresh f, Plot (step_edges left right) (step_dup (pull_hist datahist fithist)) None diff_color (Some (3 / 10))),
          (fresh f, GridOff), (fresh f, SetYlabel ''Pull'')],
        live := live f @ [fresh f], fresh := Suc (fresh f)\<rparr>)"
  by (simp add: pull_panel_def Let_def twinx_def ax_call_def)

lemma comparison_frame_effect [simp]:
  "live (comparison_frame f ax label opts left right datahist yt) = live f"
  "fresh (comparison_frame f ax label opts left right datahist yt) = fresh f"
  by (simp_all add: comparison_frame_def Let_def split: option.splits)

lemma comparison_frame_calls:
  "\<exists>ext. calls (comparison_frame f ax label opts left right datahist yt) = calls f @ ext
      \<and> (\<forall>(a, c)\<in>set ext. c \<noteq> Remove \<and> \<not> is_colorbar c)"
  by (simp add: comparison_frame_def Let_def split: option.splits)


lemma length_accumulate [simp]: "length (accumulate H kws) = length H"
  by (induction H kws rule: accumulate.induct) simp_all

lemma np_histogram_Inr:
  assumes "np_histogram a bins rng weights = Inr (h, e)"
  shows "1 \<le> bins" "e = hist_edges bins rng" "length h = nat bins"
  using assms by (auto simp: np_histogram_def Let_def split: if_splits)

lemma length_hist_edges [simp]: "length (hist_edges bins rng) = Suc (nat bins)"
  by (simp add: hist_edges_def)

lemma length_rescale [simp]: "length (rescale c h) = length h"
  by (simp add: rescale_def)

lemma rescale_finite:
  "sum_list fithist1 \<noteq> 0 \<Longrightarrow>
   rescale (fitscale_of datahist fithist1) h
     = map Finite (map (\<lambda>v. v * (sum_list datahist / sum_list fithist1)) h)"
  by (simp add: rescale_def fitscale_of_def np_divide_def)

lemma accumulate_nonneg:
  "(\<forall>v\<in>set H. 0 \<le> v) \<Longrightarrow> (\<forall>(k, w)\<in>set kws. 0 \<le> w) \<Longrightarrow>
   \<forall>v\<in>set (accumulate H kws). 0 \<le> v"
proof (induction H kws rule: accumulate.induct)
  case (1 H)
  then show ?case by simp
next
  case (2 H k w kws)
  have "\<forall>v\<in>set (H[k := H ! k + w]). 0 \<le> v"
  proof
    fix v assume "v \<in> set (H[k := H ! k + w])"
    then have "v \<in> insert (H ! k + w) (set H)" using set_update_subset_insert by fast
    moreover have "0 \<le> H ! k + w" if "k < length H" using that "2.prems" by simp
    moreover have "H[k := H ! k + w] = H" if "\<not> k < length H"
      using that by (intro list_update_beyond) simp
    ultimately show "0 \<le> v" using "2.prems"(1) \<open>v \<in> set (H[k := H ! k + w])\<close>
      by (cases "k < length H") auto
  qed
  moreover have "\<forall>(k, w)\<in>set kws. 0 \<le> w" using "2.prems"(2) by simp
  ultimately have "\<forall>v\<in>set (accumulate (H[k := H ! k + w]) kws). 0 \<le> v"
    by (rule "2.IH")
  then show ?case by simp
qed

lemma np_histogram_counts_nonneg:
  assumes "np_histogram a bins rng None = Inr (h, e)"
  shows "\<forall>v\<in>set h. 0 \<le> v"
proof -
  let ?kept = "filter (\<lambda>(x, wt). fst (hist_range rng) \<le> x \<and> x \<le> snd (hist_range rng))
                 (zip a (replicate (length a) (1::real)))"
  have h: "h = accumulate (replicate (nat bins) 0) (map (\<lambda>(x, wt). (hist_bin bins rng x, wt)) ?kept)"
    using assms by (auto simp: np_histogram_def Let_def split: if_splits)
  have "\<forall>(k, w)\<in>set (map (\<lambda>(x, wt). (hist_bin bins rng x, wt)) ?kept). 0 \<le> w"
    by (auto dest!: set_zip_rightD)
  then show ?thesis unfolding h by (intro accumulate_nonneg) simp_all
qed

lemma plot_distr1d_comparison_Inr:
  assumes "plot_distr1d_comparison F data fit bins rng fig ax label opts = Inr (r, f')"
  shows "\<exists>datahist e1 fithist1 edges f2 yt.
      np_histogram data bins rng None = Inr (datahist, e1)
    \<and> np_histogram fit bins rng (opt_weights opts) = Inr (fithist1, edges)
    \<and> (case opt_cweights opts of
         None \<Rightarrow> Inr (ax_call fig ax (Plot (step_edges (butlast edges) (tl edges))
                 (step_dup (rescale (fitscale_of datahist fithist1) fithist1))
                 (if opt_legend opts \<noteq> LegendFalse then Some ''Fit'' else None) fit_color None))
       | Some cws \<Rightarrow> component_curves (ax_call fig ax (Plot (step_edges (butlast edges) (tl edges))
                 (step_dup (rescale (fitscale_of datahist fithist1) fithist1))
                 (if opt_legend opts \<noteq> LegendFalse then Some ''Fit'' else None) fit_color None))
             ax fit bins rng (opt_weights opts) (fitscale_of datahist fithist1)
             (opt_color opts) (opt_legend opts) None 0 cws) = Inr f2
    \<and> y_label_title F rng bins (opt_units opts) = Inr yt
    \<and> (r, f') = (if opt_pull opts
                then pull_panel (comparison_frame f2 ax label opts (butlast edges) (tl edges) datahist yt)
                       ax (butlast edges) (tl edges) datahist
                       (rescale (fitscale_of datahist fithist1) fithist1)
                else ([], comparison_frame f2 ax label opts (butlast edges) (tl edges) datahist yt))"
  using assms
  by (simp add: plot_distr1d_comparison_def Let_def split: sum.splits prod.splits if_splits)

lemma plot_distr1d_comparison_effect:
  assumes "plot_distr1d_comparison F data fit bins rng fig ax label opts = Inr (r, f')"
  shows "r = (if opt_pull opts then [fresh fig] else [])"
    and "live f' = live fig @ r"
    and "fresh f' = fresh fig + length r"
    and "\<exists>ext. calls f' = calls fig @ ext \<and> (\<forall>(a, c)\<in>set ext. c \<noteq> Remove \<and> \<not> is_colorbar c)
            \<and> (opt_pull opts \<longrightarrow> (ax, Twinx (fresh fig)) \<in> set ext)"
proof -
  obtain datahist e1 fithist1 edges f2 yt where
    f2: "(case opt_cweights opts of
         None \<Rightarrow> Inr (ax_call fig ax (Plot (step_edges (butlast edges) (tl edges))
                 (step_dup (rescale (fitscale_of datahist fithist1) fithist1))
                 (if opt_legend opts \<noteq> LegendFalse then Some ''Fit'' else None) fit_color None))
       | Some cws \<Rightarrow> component_curves (ax_call fig ax (Plot (step_edges (butlast edges) (tl edges))
                 (step_dup (rescale (fitscale_of datahist fithist1) fithist1))
                 (if opt_legend opts \<noteq> LegendFalse then Some ''Fit'' else None) fit_color None))
             ax fit bins rng (opt_weights opts) (fitscale_of datahist fithist1)
             (opt_color opts) (opt_legend opts) None 0 cws) = Inr f2"
    and res: "(r, f') = (if opt_pull opts
                then pull_panel (comparison_frame f2 ax label opts (butlast edges) (tl edges) datahist yt)
                       ax (butlast edges) (tl edges) datahist
                       (rescale (fitscale_of datahist fithist1) fithist1)
                else ([], comparison_frame f2 ax label opts (butlast edges) (tl edges) datahist yt))"
    using plot_distr1d_comparison_Inr [OF assms] by - (elim exE conjE, rule that; assumption)
  have e2: "live f2 = live fig \<and> fresh f2 = fresh fig
       \<and> (\<exists>ext. calls f2 = calls fig @ ext \<and> (\<forall>(a, c)\<in>set ext. c \<noteq> Remove \<and> \<not> is_colorbar c))"
  proof (cases "opt_cweights opts")
    case None
    with f2 show ?thesis by auto
  next
    case (Some cws)
    with f2 have "component_curves (ax_call fig ax (Plot (step_edges (butlast edges) (tl edges))
                 (step_dup (rescale (fitscale_of datahist fithist1) fithist1))
                 (if opt_legend opts \<noteq> LegendFalse then Some ''Fit'' else None) fit_color None))
             ax fit bins rng (opt_weights opts) (fitscale_of datahist fithist1)
             (opt_color opts) (opt_legend opts) None 0 cws = Inr f2" by simp
    from component_curves_effect [OF this] show ?thesis by auto
  qed
  let ?f8 = "comparison_frame f2 ax label opts (butlast edges) (tl edges) datahist yt"
  from comparison_frame_calls [of f2 ax label opts "butlast edges" "tl edges" datahist yt] e2
  have c8: "\<exists>ext. calls ?f8 = calls fig @ ext \<and> (\<forall>(a, c)\<in>set ext. c \<noteq> Remove \<and> \<not> is_colorbar c)"
    by auto
  have l8: "live ?f8 = live fig" "fresh ?f8 = fresh fig" using e2 by simp_all
  show "r = (if opt_pull opts then [fresh fig] else [])"
    using res l8 by (simp add: pull_panel_effect split: if_splits)
  show "live f' = live fig @ r"
    using res l8 by (simp add: pull_panel_effect split: if_splits)
  show "fresh f' = fresh fig + length r"
    using res l8 by (simp add: pull_panel_effect split: if_splits)
  from c8 obtain ext where ext: "calls ?f8 = calls fig @ ext"
      "\<forall>(a, c)\<in>set ext. c \<noteq> Remove \<and> \<not> is_colorbar c" by - (elim exE conjE, rule that; assumption)
  show "\<exists>ext. calls f' = calls fig @ ext \<and> (\<forall>(a, c)\<in>set ext. c \<noteq> Remove \<and> \<not> is_colorbar c)
            \<and> (opt_pull opts \<longrightarrow> (ax, Twinx (fresh fig)) \<in> set ext)"
    using res l8 ext by (auto simp: pull_panel_effect split: if_splits)
qed

lemma plot_distr1d_comparison_calls:
  assumes res: "plot_distr1d_comparison F data fit bins rng fig ax label opts = Inr (r, f')"
      and dh: "np_histogram data bins rng None = Inr (datahist, e1)"
      and fh: "np_histogram fit bins rng (opt_weights opts) = Inr (fithist1, edges)"
  shows "(ax, Plot (step_edges (butlast edges) (tl edges))
                (step_dup (rescale (fitscale_of datahist fithist1) fithist1))
                (if opt_legend opts \<noteq> LegendFalse then Some ''Fit'' else None) fit_color None)
           \<in> set (calls f')"
    and "opt_pull opts \<Longrightarrow>
           {(ax, Twinx (fresh fig)), (fresh fig, SetYlimBottom (- 10)), (fresh fig, SetYlimTop 10),
            (fresh fig, Plot (step_edges (butlast edges) (tl edges))
               (step_dup (pull_hist datahist (rescale (fitscale_of datahist fithist1) fithist1)))
               None diff_color (Some (3 / 10)))} \<subseteq> set (calls f')"
proof -
  let ?f1 = "ax_call fig ax (Plot (step_edges (butlast edges) (tl edges))
                 (step_dup (rescale (fitscale_of datahist fithist1) fithist1))
                 (if opt_legend opts \<noteq> LegendFalse then Some ''Fit'' else None) fit_color None)"
  obtain f2 yt where
    f2: "(case opt_cweights opts of None \<Rightarrow> Inr ?f1
          | Some cws \<Rightarrow> component_curves ?f1 ax fit bins rng (opt_weights opts)
               (fitscale_of datahist fithist1) (opt_color opts) (opt_legend opts) None 0 cws) = Inr f2"
    and out: "(r, f') = (if opt_pull opts
                then pull_panel (comparison_frame f2 ax label opts (butlast edges) (tl edges) datahist yt)
                       ax (butlast edges) (tl edges) datahist
                       (rescale (fitscale_of datahist fithist1) fithist1)
                else ([], comparison_frame f2 ax label opts (butlast edges) (tl edges) datahist yt))"
    using plot_distr1d_comparison_Inr [OF res] dh fh by auto
  have e2: "fresh f2 = fresh fig \<and> set (calls ?f1) \<subseteq> set (calls f2)"
  proof (cases "opt_cweights opts")
    case None
    with f2 show ?thesis by auto
  next
    case (Some cws)
    with f2 have "component_curves ?f1 ax fit bins rng (opt_weights opts)
               (fitscale_of datahist fithist1) (opt_color opts) (opt_legend opts) None 0 cws = Inr f2"
      by simp
    from component_curves_effect [OF this] show ?thesis by auto
  qed
  let ?f8 = "comparison_frame f2 ax label opts (butlast edges) (tl edges) datahist yt"
  have e8: "fresh ?f8 = fresh fig" "set (calls f2) \<subseteq> set (calls ?f8)"
    using e2 comparison_frame_calls [of f2 ax label opts "butlast edges" "tl edges" datahist yt]
    by auto
  show "(ax, Plot (step_edges (butlast edges) (tl edges))
                (step_dup (rescale (fitscale_of datahist fithist1) fithist1))
                (if opt_legend opts \<noteq> LegendFalse then Some ''Fit'' else None) fit_color None)
           \<in> set (calls f')"
    using out e2 e8 by (auto simp: pull_panel_effect split: if_splits)
  show "{(ax, Twinx (fresh fig)), (fresh fig, SetYlimBottom (- 10)), (fresh fig, SetYlimTop 10),
            (fresh fig, Plot (step_edges (butlast edges) (tl edges))
               (step_dup (pull_hist datahist (rescale (fitscale_of datahist fithist1) fithist1)))
               None diff_color (Some (3 / 10)))} \<subseteq> set (calls f')" if "opt_pull opts"
    using out e8 that by (simp add: pull_panel_effect)
qed

lemma plot_distr1d_comparison_succeeds:
  assumes "np_histogram data bins rng None = Inr (datahist, e1)"
      and "np_histogram fit bins rng (opt_weights opts) = Inr (fithist1, edges)"
      and "opt_cweights opts = None"
  shows "\<exists>r f'. plot_distr1d_comparison F data fit bins rng fig ax label opts = Inr (r, f')"
proof -
  have "bins \<noteq> 0" using np_histogram_Inr(1) [OF assms(1)] by simp
  then obtain yt where "y_label_title F rng bins (opt_units opts) = Inr yt"
    by (cases "opt_units opts") (auto simp: y_label_title_def Let_def)
  then show ?thesis using assms
    by (simp add: plot_distr1d_comparison_def Let_def)
qed

lemma pull_quotient_nth:
  assumes "length fithist = length datahist" "k < length datahist"
  shows "pull_quotient datahist fithist ! k
           = np_quotient (np_minus (datahist ! k) (fithist ! k)) (np_sqrt (datahist ! k))"
  using assms by (simp add: pull_quotient_def)

lemma pull_hist_nth:
  assumes "length fithist = length datahist" "k < length datahist"
  shows "pull_hist datahist fithist ! k
           = (if datahist ! k = 0 then Finite 0
              else np_quotient (np_minus (datahist ! k) (fithist ! k)) (np_sqrt (datahist ! k)))"
  using assms by (simp add: pull_hist_def pull_quotient_def Let_def)

lemma length_pull_hist:
  "length fithist = length datahist \<Longrightarrow> length (pull_hist datahist fithist) = length datahist"
  by (simp add: pull_hist_def pull_quotient_def Let_def)

text \<open>In a bin without data the quotient is an infinity or \<^verbatim>\<open>nan\<close>, never a number.\<close>

lemma zero_data_quotient_not_finite:
  "np_quotient (np_minus 0 f) (np_sqrt 0) \<noteq> Finite v"
  by (cases f) (simp_all add: np_sqrt_def np_divide_def)

text \<open>In a bin with data and a finite model value the quotient is the number it denotes.\<close>

lemma data_quotient_finite:
  "0 < d \<Longrightarrow> np_quotient (np_minus d (Finite m)) (np_sqrt d) = Finite ((d - m) / sqrt d)"
  by (simp add: np_sqrt_def np_divide_def)

section \<open>Properties of the Comparison Renderer\<close>

text \<open>
  C5: for every data array and model array whose model histogram has a non-zero sum, the
  model histogram multiplied by \<open>sum(data bins) / sum(model bins)\<close> consists of numbers
  whose sum is the sum of the data histogram, and this rescaled histogram is the one the
  renderer draws as the model's step line. (Exact arithmetic: the equality holds without
  a tolerance.)
\<close>

theorem comparison_rescaled_sum:
  assumes "np_histogram data bins rng None = Inr (datahist, e1)"
      and "np_histogram fit bins rng (opt_weights opts) = Inr (fithist1, edges)"
      and "sum_list fithist1 \<noteq> 0"
  shows "(\<exists>fithist. rescale (fitscale_of datahist fithist1) fithist1 = map Finite fithist
                   \<and> sum_list fithist = sum_list datahist)
       \<and> (\<forall>r f'. plot_distr1d_comparison F data fit bins rng fig ax label opts = Inr (r, f') \<longrightarrow>
            (ax, Plot (step_edges (butlast edges) (tl edges))
                   (step_dup (rescale (fitscale_of datahist fithist1) fithist1))
                   (if opt_legend opts \<noteq> LegendFalse then Some ''Fit'' else None) fit_color None)
              \<in> set (calls f'))"
proof -
  let ?fithist = "map (\<lambda>v. v * (sum_list datahist / sum_list fithist1)) fithist1"
  have "rescale (fitscale_of datahist fithist1) fithist1 = map Finite ?fithist"
    by (rule rescale_finite [OF assms(3)])
  moreover have "sum_list ?fithist = sum_list datahist"
  proof -
    have "sum_list ?fithist
            = sum_list (map (\<lambda>v. v) fithist1) * (sum_list datahist / sum_list fithist1)"
      by (rule sum_list_mult_const)
    then show ?thesis using assms(3) by simp
  qed
  ultimately show ?thesis
    using plot_distr1d_comparison_calls(1) [OF _ assms(1,2)] by blast
qed

lemma ex_datahist: "np_histogram [1 / 2] 2 (0, 2) None = Inr ([1, 0], [0, 1, 2])"
  by code_simp

lemma ex_fithist: "np_histogram [1 / 2, 3 / 2] 2 (0, 2) None = Inr ([1, 1], [0, 1, 2])"
  by code_simp

theorem comparison_rescaled_sum_witness:
  "np_histogram [1 / 2] 2 (0, 2) None = Inr ([1, 0], [0, 1, 2])
   \<and> np_histogram [1 / 2, 3 / 2] 2 (0, 2) (opt_weights cmp_defaults) = Inr ([1, 1], [0, 1, 2])
   \<and> sum_list [1, 1] \<noteq> (0::real)
   \<and> (\<exists>fithist. rescale (fitscale_of [1, 0] [1, 1]) [1, 1] = map Finite fithist
                   \<and> sum_list fithist = sum_list [1, 0::real])"
proof -
  have w: "opt_weights cmp_defaults = None" by (simp add: cmp_defaults_def)
  have h2: "np_histogram [1 / 2, 3 / 2] 2 (0, 2) (opt_weights cmp_defaults) = Inr ([1, 1], [0, 1, 2])"
    unfolding w by (rule ex_fithist)
  have h3: "sum_list [1, 1] \<noteq> (0::real)" by simp
  from comparison_rescaled_sum [OF ex_datahist h2 h3] ex_datahist h2 h3 show ?thesis by blast
qed

text \<open>
  C6: with the pull requested, whenever the two histograms exist, the renderer returns the
  one-element list holding the secondary surface it has just created (and, without
  component weights, it does return: a bin without data raises nothing). On that surface
  it sets the limits \<open>-10\<close> and \<open>10\<close> and draws the step line of the pull. In every bin
  with data the pull is the quotient \<open>(data - scaled model) / sqrt data\<close>, a number whenever
  the scaled model value is one (as it is when the model histogram has a non-zero sum). In
  every bin without data the quotient is an infinity or \<^verbatim>\<open>nan\<close>, whatever the model value,
  and the pull is exactly 0.
\<close>

theorem comparison_pull:
  assumes dh: "np_histogram data bins rng None = Inr (datahist, e1)"
      and fh: "np_histogram fit bins rng (opt_weights opts) = Inr (fithist1, edges)"
      and pull: "opt_pull opts"
      and fithist: "fithist = rescale (fitscale_of datahist fithist1) fithist1"
  shows "(opt_cweights opts = None \<longrightarrow>
            (\<exists>f'. plot_distr1d_comparison F data fit bins rng fig ax label opts = Inr ([fresh fig], f')))
       \<and> (\<forall>r f'. plot_distr1d_comparison F data fit bins rng fig ax label opts = Inr (r, f') \<longrightarrow>
            r = [fresh fig] \<and> fresh fig \<in> set (live f') \<and> fresh fig < fresh f'
          \<and> (ax, Twinx (fresh fig)) \<in> set (calls f')
          \<and> (fresh fig, SetYlimBottom (- 10)) \<in> set (calls f')
          \<and> (fresh fig, SetYlimTop 10) \<in> set (calls f')
          \<and> (fresh fig, Plot (step_edges (butlast edges) (tl edges))
                 (step_dup (pull_hist datahist fithist)) None diff_color (Some (3 / 10)))
               \<in> set (calls f'))
       \<and> length (pull_hist datahist fithist) = length datahist
       \<and> (\<forall>k<length datahist.
             (datahist ! k = 0 \<longrightarrow>
                pull_hist datahist fithist ! k = Finite 0
              \<and> (\<forall>v. pull_quotient datahist fithist ! k \<noteq> Finite v))
           \<and> (datahist ! k \<noteq> 0 \<longrightarrow>
                0 < datahist ! k
              \<and> pull_hist datahist fithist ! k = pull_quotient datahist fithist ! k
              \<and> pull_quotient datahist fithist ! k
                  = np_quotient (np_minus (datahist ! k) (fithist ! k))
                      (Finite (sqrt (datahist ! k)))
              \<and> (\<forall>m. fithist ! k = Finite m \<longrightarrow>
                    pull_hist datahist fithist ! k
                      = Finite ((datahist ! k - m) / sqrt (datahist ! k)))))
       \<and> (sum_list fithist1 \<noteq> 0 \<longrightarrow>
            (\<forall>k<length datahist.
               fithist ! k = Finite (fithist1 ! k * (sum_list datahist / sum_list fithist1))))"
proof -
  have len: "length fithist = length datahist"
    using np_histogram_Inr(3) [OF dh] np_histogram_Inr(3) [OF fh] fithist by simp
  have len1: "length fithist1 = length datahist"
    using np_histogram_Inr(3) [OF dh] np_histogram_Inr(3) [OF fh] by simp
  have succ: "\<exists>f'. plot_distr1d_comparison F data fit bins rng fig ax label opts = Inr ([fresh fig], f')"
    if "opt_cweights opts = None"
  proof -
    from plot_distr1d_comparison_succeeds [OF dh fh that]
    obtain r f' where r: "plot_distr1d_comparison F data fit bins rng fig ax label opts = Inr (r, f')"
      by blast
    from plot_distr1d_comparison_effect(1) [OF r] pull r show ?thesis by simp
  qed
  have ret: "r = [fresh fig] \<and> fresh fig \<in> set (live f') \<and> fresh fig < fresh f'
          \<and> (ax, Twinx (fresh fig)) \<in> set (calls f')
          \<and> (fresh fig, SetYlimBottom (- 10)) \<in> set (calls f')
          \<and> (fresh fig, SetYlimTop 10) \<in> set (calls f')
          \<and> (fresh fig, Plot (step_edges (butlast edges) (tl edges))
                 (step_dup (pull_hist datahist fithist)) None diff_color (Some (3 / 10)))
               \<in> set (calls f')"
    if r: "plot_distr1d_comparison F data fit bins rng fig ax label opts = Inr (r, f')" for r f'
    using plot_distr1d_comparison_effect(1,2,3) [OF r]
      plot_distr1d_comparison_calls(2) [OF r dh fh pull] pull fithist
    by simp
  have bins: "(datahist ! k = 0 \<longrightarrow>
                pull_hist datahist fithist ! k = Finite 0
              \<and> (\<forall>v. pull_quotient datahist fithist ! k \<noteq> Finite v))
           \<and> (datahist ! k \<noteq> 0 \<longrightarrow>
                0 < datahist ! k
              \<and> pull_hist datahist fithist ! k = pull_quotient datahist fithist ! k
              \<and> pull_quotient datahist fithist ! k
                  = np_quotient (np_minus (datahist ! k) (fithist ! k))
                      (Finite (sqrt (datahist ! k)))
              \<and> (\<forall>m. fithist ! k = Finite m \<longrightarrow>
                    pull_hist datahist fithist ! k
                      = Finite ((datahist ! k - m) / sqrt (datahist ! k))))"
    if k: "k < length datahist" for k
  proof -
    have nn: "0 \<le> datahist ! k" using np_histogram_counts_nonneg [OF dh] k by simp
    note q = pull_quotient_nth [OF len k] and p = pull_hist_nth [OF len k]
    show ?thesis
    proof (cases "datahist ! k = 0")
      case True
      then show ?thesis using q p zero_data_quotient_not_finite [of "fithist ! k"] by simp
    next
      case False
      with nn have pos: "0 < datahist ! k" by simp
      then have sq: "np_sqrt (datahist ! k) = Finite (sqrt (datahist ! k))"
        by (simp add: np_sqrt_def)
      show ?thesis
        using False pos q p sq data_quotient_finite [OF pos] by simp
    qed
  qed
  have fin: "fithist ! k = Finite (fithist1 ! k * (sum_list datahist / sum_list fithist1))"
    if "sum_list fithist1 \<noteq> 0" "k < length datahist" for k
    using that len1 unfolding fithist rescale_finite [OF that(1)] by simp
  show ?thesis
    using succ ret bins fin length_pull_hist [OF len] by blast
qed

theorem comparison_pull_witness:
  "\<exists>f'. plot_distr1d_comparison ex_fmt [1 / 2] [1 / 2, 3 / 2] 2 (0, 2) ex_fig 0 ''m''
          (cmp_defaults\<lparr>opt_pull := True\<rparr>) = Inr ([4], f')
       \<and> (4, SetYlimBottom (- 10)) \<in> set (calls f') \<and> (4, SetYlimTop 10) \<in> set (calls f')
       \<and> (4, Plot [0, 1, 1, 2] [Finite (1 / 2), Finite (1 / 2), Finite 0, Finite 0] None
              diff_color (Some (3 / 10))) \<in> set (calls f')"
proof -
  have w: "opt_weights (cmp_defaults\<lparr>opt_pull := True\<rparr>) = None"
          "opt_pull (cmp_defaults\<lparr>opt_pull := True\<rparr>)"
          "opt_cweights (cmp_defaults\<lparr>opt_pull := True\<rparr>) = None"
    by (simp_all add: cmp_defaults_def)
  have h2: "np_histogram [1 / 2, 3 / 2] 2 (0, 2) (opt_weights (cmp_defaults\<lparr>opt_pull := True\<rparr>))
              = Inr ([1, 1], [0, 1, 2])"
    unfolding w by (rule ex_fithist)
  have ph: "pull_hist [1, 0] (rescale (fitscale_of [1, 0] [1, 1]) [1, 1])
              = [Finite (1 / 2), Finite 0]"
    by (simp add: pull_hist_def pull_quotient_def rescale_def fitscale_of_def np_divide_def
          np_sqrt_def)
  from comparison_pull [OF ex_datahist h2 w(2) refl, of ex_fmt ex_fig 0 "''m''"] w(3)
  show ?thesis
    by (auto simp: ph step_dup_def step_edges_def ex_fig_def)
qed

text \<open>
  A model histogram of sum 0 against one data sample: the factor is infinite, the scaled
  model is \<^verbatim>\<open>nan\<close>, the pull is \<^verbatim>\<open>nan\<close> in the bin with data and 0 in the bin without.
\<close>

lemma pull_hist_zero_sum_model:
  "rescale (fitscale_of [1, 0] [0, 0]) [0, 0] = [NaN, NaN]
   \<and> pull_hist [1, 0] (rescale (fitscale_of [1, 0] [0, 0]) [0, 0]) = [NaN, Finite 0]"
  by (simp add: pull_hist_def pull_quotient_def rescale_def fitscale_of_def np_divide_def
        np_sqrt_def)

lemma ex_chist: "np_histogram [1 / 2, 3 / 2] 2 (0, 2) (Some [1, 1]) = Inr ([1, 1], [0, 1, 2])"
  by code_simp

text \<open>
  C3 (as stated): each component curve is drawn as a step line. This fails: for the data
  \<open>[0.5]\<close>, the model \<open>[0.5, 1.5]\<close>, two bins over \<open>(0, 2)\<close> and the component weights
  \<open>[1, 1]\<close>, the component is drawn through the two bin centres \<open>0.5\<close> and \<open>1.5\<close>, and no
  step line (edges \<open>0, 1, 1, 2\<close>, every value twice) is drawn for it.
\<close>

theorem component_curve_counterexample:
  "plot_distr1d_comparison ex_fmt [1 / 2] [1 / 2, 3 / 2] 2 (0, 2) ex_fig 0 ''m''
     (cmp_defaults\<lparr>opt_cweights := Some [[1, 1]]\<rparr>)
     = Inr ([], \<lparr>calls = ex_component_calls, live = [0, 1, 2, 3], fresh = 4\<rparr>)
   \<and> (0, Plot (step_edges [0, 1] [1, 2]) (step_dup [Finite (1 / 2), Finite (1 / 2)]) None (Cycle 1) None)
        \<notin> set ex_component_calls"
  apply (simp add: plot_distr1d_comparison_def ex_datahist ex_fithist ex_chist cmp_defaults_def
       Let_def effective_weight_def component_color_def component_label_def
       fitscale_of_def rescale_def np_divide_def step_dup_def step_edges_def bin_centers_def
       y_label_title_def ex_fmt_def comparison_frame_def label_title_def ex_fig_def
       ax_call_def ex_component_calls_def)
  done


lemma effective_weight_own: "effective_weight w None = Inr w"
  by (simp add: effective_weight_def)

text \<open>
  With a shared weight array of two or more elements the truth test of the array raises.
\<close>

lemma effective_weight_shared_array_raises:
  "2 \<le> length sw \<Longrightarrow> effective_weight w (Some sw) = Inl ValueError"
  by (cases sw; cases "tl sw") (auto simp: effective_weight_def array_truth_def)

lemma length_bin_centers_edges [simp]:
  "length (bin_centers (butlast (hist_edges bins rng)) (tl (hist_edges bins rng))) = nat bins"
  by (simp add: bin_centers_def)

lemma component_curves_nth:
  assumes "component_curves f ax fit bins rng weights fs color legend cxarr i ws = Inr f'"
      and "k < length ws"
      and "cxarr = None \<or> cxarr = Some (bin_centers (butlast (hist_edges bins rng)) (tl (hist_edges bins rng)))"
  shows "\<exists>w2 chist col lab. effective_weight (ws ! k) weights = Inr w2
          \<and> np_histogram fit bins rng (Some w2) = Inr (chist, hist_edges bins rng)
          \<and> component_color color (i + k) = Inr col \<and> component_label legend (i + k) = Inr lab
          \<and> (ax, Plot (bin_centers (butlast (hist_edges bins rng)) (tl (hist_edges bins rng)))
                   (rescale fs chist) lab col None) \<in> set (calls f')
          \<and> (ax, FillBetween (bin_centers (butlast (hist_edges bins rng)) (tl (hist_edges bins rng)))
                   (rescale fs chist) 0 col (1 / 10)) \<in> set (calls f')"
  using assms
proof (induction ws arbitrary: f cxarr i k)
  case Nil
  then show ?case by simp
next
  case (Cons w ws)
  let ?C = "bin_centers (butlast (hist_edges bins rng)) (tl (hist_edges bins rng))"
  from Cons.prems(1) obtain w2 chist cedges col lab where
        w2: "effective_weight w weights = Inr w2"
    and ch: "np_histogram fit bins rng (Some w2) = Inr (chist, cedges)"
    and col: "component_color color i = Inr col"
    and lab: "component_label legend i = Inr lab"
    by (auto simp: Let_def split: sum.splits prod.splits)
  have ce: "cedges = hist_edges bins rng" using np_histogram_Inr(2) [OF ch] .
  have cx: "(case cxarr of None \<Rightarrow> bin_centers (butlast cedges) (tl cedges) | Some c \<Rightarrow> c) = ?C"
    using Cons.prems(3) ce by auto
  let ?f1 = "ax_call (ax_call f ax (Plot ?C (rescale fs chist) lab col None))
               ax (FillBetween ?C (rescale fs chist) 0 col (1 / 10))"
  have step: "component_curves ?f1 ax fit bins rng weights fs color legend (Some ?C) (Suc i) ws = Inr f'"
    using Cons.prems(1) w2 ch col lab cx by (simp add: Let_def)
  show ?case
  proof (cases k)
    case 0
    from component_curves_effect [OF step]
    have "set (calls ?f1) \<subseteq> set (calls f')" by auto
    then show ?thesis using 0 w2 ch col lab ce by auto
  next
    case (Suc k')
    with Cons.prems(2) have "k' < length ws" by simp
    from Cons.IH [OF step this] Suc show ?thesis by simp
  qed
qed

text \<open>
  C3 (amended): when a list of component weight arrays is given and no shared weight
  array, each component curve is drawn as a line through the bin centres, one point for
  each bin, with the area under it filled; its heights are the histogram of the model array
  under the component's own weight array, multiplied by the normalization factor of the
  model's step line.
\<close>

theorem component_curves_at_bin_centres:
  assumes res: "plot_distr1d_comparison F data fit bins rng fig ax label opts = Inr (r, f')"
      and dh: "np_histogram data bins rng None = Inr (datahist, e1)"
      and fh: "np_histogram fit bins rng (opt_weights opts) = Inr (fithist1, edges)"
      and cw: "opt_cweights opts = Some cws"
      and now: "opt_weights opts = None"
      and k: "k < length cws"
  shows "\<exists>chist col lab.
           np_histogram fit bins rng (Some (cws ! k)) = Inr (chist, edges)
         \<and> component_color (opt_color opts) k = Inr col
         \<and> component_label (opt_legend opts) k = Inr lab
         \<and> (ax, Plot (bin_centers (butlast edges) (tl edges))
                  (rescale (fitscale_of datahist fithist1) chist) lab col None) \<in> set (calls f')
         \<and> (ax, FillBetween (bin_centers (butlast edges) (tl edges))
                  (rescale (fitscale_of datahist fithist1) chist) 0 col (1 / 10)) \<in> set (calls f')
         \<and> length (bin_centers (butlast edges) (tl edges)) = nat bins
         \<and> length (rescale (fitscale_of datahist fithist1) chist) = nat bins
         \<and> (ax, Plot (step_edges (butlast edges) (tl edges))
                  (step_dup (rescale (fitscale_of datahist fithist1) fithist1))
                  (if opt_legend opts \<noteq> LegendFalse then Some ''Fit'' else None) fit_color None)
              \<in> set (calls f')"
proof -
  let ?f1 = "ax_call fig ax (Plot (step_edges (butlast edges) (tl edges))
                 (step_dup (rescale (fitscale_of datahist fithist1) fithist1))
                 (if opt_legend opts \<noteq> LegendFalse then Some ''Fit'' else None) fit_color None)"
  have ed: "edges = hist_edges bins rng" using np_histogram_Inr(2) [OF fh] .
  obtain f2 yt where
    f2: "component_curves ?f1 ax fit bins rng (opt_weights opts)
               (fitscale_of datahist fithist1) (opt_color opts) (opt_legend opts) None 0 cws = Inr f2"
    and out: "(r, f') = (if opt_pull opts
                then pull_panel (comparison_frame f2 ax label opts (butlast edges) (tl edges) datahist yt)
                       ax (butlast edges) (tl edges) datahist
                       (rescale (fitscale_of datahist fithist1) fithist1)
                else ([], comparison_frame f2 ax label opts (butlast edges) (tl edges) datahist yt))"
    using plot_distr1d_comparison_Inr [OF res] dh fh cw by auto
  have sub: "set (calls f2) \<subseteq> set (calls f')"
    using out comparison_frame_calls [of f2 ax label opts "butlast edges" "tl edges" datahist yt]
    by (auto simp: pull_panel_effect split: if_splits)
  from component_curves_nth [OF f2 k] obtain chist col lab where
        "np_histogram fit bins rng (Some (cws ! k)) = Inr (chist, edges)"
        "component_color (opt_color opts) k = Inr col"
        "component_label (opt_legend opts) k = Inr lab"
        "(ax, Plot (bin_centers (butlast edges) (tl edges))
                  (rescale (fitscale_of datahist fithist1) chist) lab col None) \<in> set (calls f2)"
        "(ax, FillBetween (bin_centers (butlast edges) (tl edges))
                  (rescale (fitscale_of datahist fithist1) chist) 0 col (1 / 10)) \<in> set (calls f2)"
    using now ed by (auto simp: effective_weight_own)
  moreover from this(1) have "length chist = nat bins" by (rule np_histogram_Inr(3))
  ultimately show ?thesis
    using sub plot_distr1d_comparison_calls(1) [OF res dh fh] ed by auto
qed

theorem component_curves_at_bin_centres_witness:
  "(0, Plot [1 / 2, 3 / 2] [Finite (1 / 2), Finite (1 / 2)] None (Cycle 1) None)
       \<in> set ex_component_calls
   \<and> (0, FillBetween [1 / 2, 3 / 2] [Finite (1 / 2), Finite (1 / 2)] 0 (Cycle 1) (1 / 10))
       \<in> set ex_component_calls"
proof -
  let ?opts = "cmp_defaults\<lparr>opt_cweights := Some [[1, 1]]\<rparr>"
  have o: "opt_weights ?opts = None" "opt_cweights ?opts = Some [[1, 1]]"
          "opt_color ?opts = None" "opt_legend ?opts = LegendNone"
    by (simp_all add: cmp_defaults_def)
  have res: "plot_distr1d_comparison ex_fmt [1 / 2] [1 / 2, 3 / 2] 2 (0, 2) ex_fig 0 ''m'' ?opts
     = Inr ([], \<lparr>calls = ex_component_calls, live = [0, 1, 2, 3], fresh = 4\<rparr>)"
    by (simp add: plot_distr1d_comparison_def ex_datahist ex_fithist ex_chist cmp_defaults_def
       Let_def effective_weight_def component_color_def component_label_def
       fitscale_of_def rescale_def np_divide_def step_dup_def step_edges_def bin_centers_def
       y_label_title_def ex_fmt_def comparison_frame_def label_title_def ex_fig_def
       ax_call_def ex_component_calls_def)
  have fh: "np_histogram [1 / 2, 3 / 2] 2 (0, 2) (opt_weights ?opts) = Inr ([1, 1], [0, 1, 2])"
    unfolding o by (rule ex_fithist)
  have k: "(0::nat) < length [[1, 1::real]]" by simp
  from component_curves_at_bin_centres [OF res ex_datahist fh o(2) o(1) k]
  show ?thesis
    by (auto simp: o ex_chist component_color_def component_label_def bin_centers_def
          rescale_def fitscale_of_def np_divide_def)
qed

section \<open>Properties of the Fast 2D Histogrammer\<close>

lemma bin_index_bounds:
  assumes "fst rng \<le> v" "v < snd rng" "0 < b"
  shows "0 \<le> bin_index rng b v \<and> bin_index rng b v < b"
proof -
  let ?t = "(v - fst rng) / (snd rng - fst rng)"
  have w: "0 < snd rng - fst rng" using assms by simp
  have t0: "0 \<le> ?t" using assms w by simp
  have t1: "?t < 1" using assms w by simp
  have b: "0 < real_of_int b" using assms by simp
  have p0: "0 \<le> ?t * real_of_int b" using t0 b by (intro mult_nonneg_nonneg) simp_all
  have p1: "?t * real_of_int b < real_of_int b" using mult_strict_right_mono [OF t1 b] by simp
  have "bin_index rng b v = \<lfloor>?t * real_of_int b\<rfloor>"
    using p0 by (simp add: bin_index_def astype_int_def)
  moreover have "0 \<le> \<lfloor>?t * real_of_int b\<rfloor>" using p0 by simp
  moreover have "\<lfloor>?t * real_of_int b\<rfloor> < b" using p1 by (simp add: floor_less_iff)
  ultimately show ?thesis by simp
qed

lemma bin_index_lower: "bin_index rng b (fst rng) = 0"
  by (simp add: bin_index_def astype_int_def)

lemma lin_index_bounds:
  assumes "cuts ranges x y" "0 < fst bins" "0 < snd bins"
  shows "0 \<le> lin_index bins ranges x y \<and> lin_index bins ranges x y < fst bins * snd bins"
proof -
  from assms have ix: "0 \<le> bin_index (fst ranges) (fst bins) x"
      "bin_index (fst ranges) (fst bins) x < fst bins"
    using bin_index_bounds [of "fst ranges" x "fst bins"] by (simp_all add: cuts_def)
  from assms have iy: "0 \<le> bin_index (snd ranges) (snd bins) y"
      "bin_index (snd ranges) (snd bins) y < snd bins"
    using bin_index_bounds [of "snd ranges" y "snd bins"] by (simp_all add: cuts_def)
  have "fst bins * bin_index (snd ranges) (snd bins) y \<le> fst bins * (snd bins - 1)"
    using iy assms(2) by (intro mult_left_mono) simp_all
  then have "lin_index bins ranges x y < fst bins * snd bins"
    using ix by (simp add: lin_index_def algebra_simps)
  moreover have "0 \<le> fst bins * bin_index (snd ranges) (snd bins) y"
    using iy assms(2) by simp
  ultimately show ?thesis using ix by (simp add: lin_index_def)
qed

lemma fold_max_le:
  "(\<forall>k\<in>set c. k \<le> a) \<Longrightarrow> b \<le> a \<Longrightarrow> fold max c b \<le> (a::int)"
  by (induction c arbitrary: b) simp_all

lemma accumulate_nth:
  "j < length H \<Longrightarrow>
   accumulate H kws ! j = H ! j + sum_list (map snd (filter (\<lambda>(k, w). k = j) kws))"
proof (induction H kws rule: accumulate.induct)
  case (1 H)
  then show ?case by simp
next
  case (2 H k w kws)
  then show ?case by (cases "k = j") (simp_all add: nth_list_update)
qed

lemma sum_list_update_add:
  "k < length H \<Longrightarrow> sum_list (H[k := H ! k + w]) = sum_list H + (w::real)"
proof (induction H arbitrary: k)
  case Nil
  then show ?case by simp
next
  case (Cons h H)
  then show ?case by (cases k) simp_all
qed

lemma sum_list_accumulate:
  "(\<forall>(k, w)\<in>set kws. k < length H) \<Longrightarrow>
   sum_list (accumulate H kws) = sum_list H + sum_list (map snd kws)"
proof (induction H kws rule: accumulate.induct)
  case (1 H)
  then show ?case by simp
next
  case (2 H k w kws)
  then show ?case by (simp add: sum_list_update_add)
qed

lemma concat_chunks: "concat (map (\<lambda>r. take c (drop (r * c) xs)) [0..<n]) = take (n * c) xs"
proof (induction n)
  case 0
  then show ?case by simp
next
  case (Suc n)
  have "take (n * c + c) xs = take (n * c) xs @ take c (drop (n * c) xs)"
    by (rule take_add)
  with Suc show ?case by (simp add: add.commute)
qed

lemma sum_list_concat_rows: "sum_list (concat xss) = sum_list (map sum_list (xss::real list list))"
  by (induction xss) simp_all

lemma np_reshape_sum:
  assumes "np_reshape flat rows cols = Inr H"
  shows "grid_sum H = sum_list flat"
proof -
  from assms have len: "int (length flat) = rows * cols" and nn: "0 \<le> rows" "0 \<le> cols"
    and H: "H = map (\<lambda>r. take (nat cols) (drop (r * nat cols) flat)) [0..<nat rows]"
    by (auto simp: np_reshape_def split: if_splits)
  have "length flat = nat rows * nat cols"
    using len nn by (metis nat_int nat_mult_distrib)
  then have "concat H = flat" unfolding H concat_chunks by simp
  then show ?thesis unfolding grid_sum_def by (simp add: sum_list_concat_rows [symmetric])
qed

lemma np_reshape_nth:
  assumes "0 \<le> rows" "0 \<le> cols" "length flat = nat rows * nat cols" "r < nat rows" "c < nat cols"
  shows "\<exists>H. np_reshape flat rows cols = Inr H \<and> length H = nat rows \<and> length (H ! r) = nat cols
          \<and> H ! r ! c = flat ! (c + nat cols * r)"
proof -
  have len: "int (length flat) = rows * cols" using assms by (simp add: nat_mult_distrib [symmetric])
  have "Suc r \<le> nat rows" using assms by simp
  then have "Suc r * nat cols \<le> nat rows * nat cols" by (rule mult_le_mono1)
  then have le: "r * nat cols + nat cols \<le> length flat" using assms(3) by simp
  then have l1: "length (take (nat cols) (drop (r * nat cols) flat)) = nat cols" by simp
  have l2: "take (nat cols) (drop (r * nat cols) flat) ! c = flat ! (c + nat cols * r)"
    using assms(5) le by (simp add: mult.commute add.commute)
  show ?thesis using assms len l1 l2 by (simp add: np_reshape_def)
qed


lemma np_linspace_bins: "0 \<le> b \<Longrightarrow> \<exists>e. np_linspace lo hi (b + 1) = Inr e"
  by (simp add: np_linspace_def)

lemma np_bincount_in_range:
  assumes "\<forall>k\<in>set c. 0 \<le> k \<and> k < m"
  shows "0 \<le> m \<Longrightarrow> np_bincount c m None
           = Inr (accumulate (replicate (nat m) 0) (map (\<lambda>k. (nat k, 1)) c))"
    and "0 \<le> m \<Longrightarrow> length w = length c \<Longrightarrow> np_bincount c m (Some w)
           = Inr (accumulate (replicate (nat m) 0) (zip (map nat c) w))"
proof -
  assume m: "0 \<le> m"
  have neg: "\<not> list_ex (\<lambda>k. k < 0) c" using assms by (auto simp: list_ex_iff)
  have "fold max c (- 1) \<le> m - 1" using assms m by (intro fold_max_le) auto
  then have mx: "max m (fold max c (- 1) + 1) = m" by simp
  show "np_bincount c m None
           = Inr (accumulate (replicate (nat m) 0) (map (\<lambda>k. (nat k, 1)) c))"
    using neg m mx by (simp add: np_bincount_def)
  show "np_bincount c m (Some w)
           = Inr (accumulate (replicate (nat m) 0) (zip (map nat c) w))" if "length w = length c"
    using neg m mx that by (simp add: np_bincount_def)
qed

lemma np_bincount_length_mismatch:
  "length w \<noteq> length c \<Longrightarrow> np_bincount c m (Some w) = Inl ValueError"
  by (simp add: np_bincount_def Let_def)

lemma fasthist2d_weights_dropped_sample:
  assumes "length xs = length ys" "length w = length xs"
      and "i < length xs" "\<not> cuts ranges (xs ! i) (ys ! i)"
  shows "fasthist2d xs ys bins ranges (Some w) = Inl ValueError"
proof -
  let ?kept = "filter (\<lambda>(x, y). cuts ranges x y) (zip xs ys)"
  have "(xs ! i, ys ! i) \<in> set (zip xs ys)"
    using assms(1,3) by (metis length_zip min.idem nth_mem nth_zip)
  then have "length ?kept < length (zip xs ys)"
    using assms(4) by (intro length_filter_less) auto
  then have "length w \<noteq> length (map (\<lambda>(x, y). lin_index bins ranges x y) ?kept)"
    using assms(1,2) by simp
  from np_bincount_length_mismatch [OF this] show ?thesis
    using assms(1) by (simp add: fasthist2d_def Let_def)
qed

lemma fasthist2d_unweighted:
  assumes "length xs = length ys" "0 < fst bins" "0 < snd bins"
  shows "\<exists>H xe ye. fasthist2d xs ys bins ranges None = Inr (H, xe, ye)
     \<and> np_reshape (accumulate (replicate (nat (fst bins * snd bins)) 0)
            (map (\<lambda>k. (nat k, 1))
               (map (\<lambda>(x, y). lin_index bins ranges x y)
                  (filter (\<lambda>(x, y). cuts ranges x y) (zip xs ys)))))
          (snd bins) (fst bins) = Inr H
     \<and> np_linspace (fst (fst ranges)) (snd (fst ranges)) (fst bins + 1) = Inr xe
     \<and> np_linspace (fst (snd ranges)) (snd (snd ranges)) (snd bins + 1) = Inr ye"
proof -
  let ?c = "map (\<lambda>(x, y). lin_index bins ranges x y)
                  (filter (\<lambda>(x, y). cuts ranges x y) (zip xs ys))"
  have rng: "\<forall>k\<in>set ?c. 0 \<le> k \<and> k < fst bins * snd bins"
    using lin_index_bounds [OF _ assms(2,3)] by auto
  have m: "0 \<le> fst bins * snd bins" using assms by simp
  let ?flat = "accumulate (replicate (nat (fst bins * snd bins)) 0) (map (\<lambda>k. (nat k, 1)) ?c)"
  have bc: "np_bincount ?c (fst bins * snd bins) None = Inr ?flat"
    by (rule np_bincount_in_range(1) [OF rng m])
  have "int (length ?flat) = snd bins * fst bins" using m by (simp add: mult.commute)
  then obtain H where H: "np_reshape ?flat (snd bins) (fst bins) = Inr H"
    using assms by (simp add: np_reshape_def)
  obtain xe where xe: "np_linspace (fst (fst ranges)) (snd (fst ranges)) (fst bins + 1) = Inr xe"
    using np_linspace_bins [of "fst bins"] assms by auto
  obtain ye where ye: "np_linspace (fst (snd ranges)) (snd (snd ranges)) (snd bins + 1) = Inr ye"
    using np_linspace_bins [of "snd bins"] assms by auto
  show ?thesis using assms(1) bc H xe ye by (simp add: fasthist2d_def Let_def)
qed


lemma lin_decode:
  assumes "0 \<le> a" "a < b" "0 \<le> a'" "a' < b" "a + b * q = a' + b * (q'::int)"
  shows "a = a' \<and> q = q'"
proof -
  have "(a + b * q) mod b = a" using assms(1,2) by simp
  moreover have "(a' + b * q') mod b = a'" using assms(3,4) by simp
  ultimately have "a = a'" using assms(5) by simp
  moreover from this assms(5) have "b * q = b * q'" by simp
  moreover have "b \<noteq> 0" using assms(1,2) by auto
  ultimately show ?thesis by simp
qed

lemma lin_index_cell:
  assumes "cuts ranges x y" "0 < fst bins" "0 < snd bins" "c < nat (fst bins)"
  shows "nat (lin_index bins ranges x y) = c + nat (fst bins) * r
         \<longleftrightarrow> bin_index (fst ranges) (fst bins) x = int c
             \<and> bin_index (snd ranges) (snd bins) y = int r"
proof -
  from assms have ix: "0 \<le> bin_index (fst ranges) (fst bins) x"
      "bin_index (fst ranges) (fst bins) x < fst bins"
    using bin_index_bounds [of "fst ranges" x "fst bins"] by (simp_all add: cuts_def)
  have nn: "0 \<le> lin_index bins ranges x y" using lin_index_bounds [OF assms(1,2,3)] by simp
  have "nat (lin_index bins ranges x y) = c + nat (fst bins) * r
        \<longleftrightarrow> lin_index bins ranges x y = int c + fst bins * int r"
    using nn assms(2) by (auto simp: nat_eq_iff)
  also have "\<dots> \<longleftrightarrow> bin_index (fst ranges) (fst bins) x = int c
             \<and> bin_index (snd ranges) (snd bins) y = int r"
    unfolding lin_index_def
    using lin_decode [of "bin_index (fst ranges) (fst bins) x" "fst bins" "int c"
             "bin_index (snd ranges) (snd bins) y" "int r"] ix assms(4)
    by auto
  finally show ?thesis .
qed

lemma count_unit_weights:
  "sum_list (map snd (filter (\<lambda>(k, w). k = j) (map (\<lambda>z. (g z, 1::real)) zs)))
     = real (length (filter (\<lambda>z. g z = j) zs))"
  by (induction zs) simp_all

lemma fasthist2d_cell:
  assumes len: "length xs = length ys" and bx: "0 < fst bins" and "by": "0 < snd bins"
      and res: "fasthist2d xs ys bins ranges None = Inr (H, xe, ye)"
      and r: "r < nat (snd bins)" and c: "c < nat (fst bins)"
  shows "H ! r ! c = real (length (filter
            (\<lambda>(x, y). cuts ranges x y \<and> bin_index (fst ranges) (fst bins) x = int c
                       \<and> bin_index (snd ranges) (snd bins) y = int r) (zip xs ys)))"
proof -
  let ?kept = "filter (\<lambda>(x, y). cuts ranges x y) (zip xs ys)"
  let ?kws = "map (\<lambda>z. (nat (case z of (x, y) \<Rightarrow> lin_index bins ranges x y), 1::real)) ?kept"
  let ?flat = "accumulate (replicate (nat (fst bins * snd bins)) 0) ?kws"
  have kws: "map (\<lambda>k. (nat k, 1::real)) (map (\<lambda>(x, y). lin_index bins ranges x y) ?kept) = ?kws"
    by simp
  from fasthist2d_unweighted [OF len bx "by", of ranges] res
  have H: "np_reshape ?flat (snd bins) (fst bins) = Inr H" unfolding kws by auto
  have lf: "length ?flat = nat (snd bins) * nat (fst bins)"
    using bx "by" by (simp add: nat_mult_distrib mult.commute)
  from np_reshape_nth [OF _ _ lf r c] bx "by" H
  have cell: "H ! r ! c = ?flat ! (c + nat (fst bins) * r)" by auto
  have "Suc r \<le> nat (snd bins)" using r by simp
  then have "nat (fst bins) * Suc r \<le> nat (fst bins) * nat (snd bins)" by (rule mult_le_mono2)
  then have j: "c + nat (fst bins) * r < length (replicate (nat (fst bins * snd bins)) (0::real))"
    using c bx "by" by (simp add: nat_mult_distrib)
  have "?flat ! (c + nat (fst bins) * r)
          = real (length (filter (\<lambda>z. nat (case z of (x, y) \<Rightarrow> lin_index bins ranges x y)
                                        = c + nat (fst bins) * r) ?kept))"
    unfolding accumulate_nth [OF j] using j by (simp add: count_unit_weights)
  also have "filter (\<lambda>z. nat (case z of (x, y) \<Rightarrow> lin_index bins ranges x y)
                                        = c + nat (fst bins) * r) ?kept
           = filter (\<lambda>(x, y). cuts ranges x y \<and> bin_index (fst ranges) (fst bins) x = int c
                       \<and> bin_index (snd ranges) (snd bins) y = int r) (zip xs ys)"
    unfolding filter_filter
    by (rule filter_cong) (auto simp: lin_index_cell [OF _ bx "by" c])
  finally show ?thesis using cell by simp
qed

lemma fasthist2d_unweighted_sum:
  assumes len: "length xs = length ys" and bx: "0 < fst bins" and "by": "0 < snd bins"
  shows "\<exists>H xe ye. fasthist2d xs ys bins ranges None = Inr (H, xe, ye)
          \<and> grid_sum H = real (length (filter (\<lambda>(x, y). cuts ranges x y) (zip xs ys)))"
proof -
  let ?kept = "filter (\<lambda>(x, y). cuts ranges x y) (zip xs ys)"
  let ?kws = "map (\<lambda>k. (nat k, 1::real)) (map (\<lambda>(x, y). lin_index bins ranges x y) ?kept)"
  let ?flat = "accumulate (replicate (nat (fst bins * snd bins)) 0) ?kws"
  from fasthist2d_unweighted [OF len bx "by", of ranges] obtain H xe ye where
    res: "fasthist2d xs ys bins ranges None = Inr (H, xe, ye)"
    and H: "np_reshape ?flat (snd bins) (fst bins) = Inr H" by blast
  have inr: "\<forall>(k, w)\<in>set ?kws. k < length (replicate (nat (fst bins * snd bins)) (0::real))"
    using lin_index_bounds [OF _ bx "by", of ranges] bx "by"
    by (auto simp: nat_less_iff)
  have "grid_sum H = sum_list ?flat" by (rule np_reshape_sum [OF H])
  also have "\<dots> = sum_list (map snd ?kws)"
    unfolding sum_list_accumulate [OF inr] by (simp add: sum_list_replicate)
  also have "\<dots> = real (length ?kept)"
    by (simp add: comp_def sum_list_triv)
  finally show ?thesis using res by blast
qed

lemma fasthist2d_weighted_sum:
  assumes len: "length xs = length ys" and bx: "0 < fst bins" and "by": "0 < snd bins"
      and lw: "length w = length xs"
      and all_in: "\<forall>i<length xs. cuts ranges (xs ! i) (ys ! i)"
  shows "\<exists>H xe ye. fasthist2d xs ys bins ranges (Some w) = Inr (H, xe, ye)
          \<and> grid_sum H = sum_list w"
proof -
  have allz: "\<forall>z\<in>set (zip xs ys). case z of (x, y) \<Rightarrow> cuts ranges x y"
    using all_in len by (auto simp: set_zip)
  then have kept: "filter (\<lambda>(x, y). cuts ranges x y) (zip xs ys) = zip xs ys"
    by (simp add: filter_id_conv)
  let ?c = "map (\<lambda>(x, y). lin_index bins ranges x y) (zip xs ys)"
  have rng: "\<forall>k\<in>set ?c. 0 \<le> k \<and> k < fst bins * snd bins"
    using lin_index_bounds [OF _ bx "by", of ranges] allz by auto
  have m: "0 \<le> fst bins * snd bins" using bx "by" by simp
  let ?flat = "accumulate (replicate (nat (fst bins * snd bins)) 0) (zip (map nat ?c) w)"
  have lc: "length w = length ?c" using lw len by simp
  have bc: "np_bincount ?c (fst bins * snd bins) (Some w) = Inr ?flat"
    by (rule np_bincount_in_range(2) [OF rng m lc])
  have "int (length ?flat) = snd bins * fst bins" using m by (simp add: mult.commute)
  then obtain H where H: "np_reshape ?flat (snd bins) (fst bins) = Inr H"
    using bx "by" by (simp add: np_reshape_def)
  obtain xe where xe: "np_linspace (fst (fst ranges)) (snd (fst ranges)) (fst bins + 1) = Inr xe"
    using np_linspace_bins [of "fst bins"] bx by auto
  obtain ye where ye: "np_linspace (fst (snd ranges)) (snd (snd ranges)) (snd bins + 1) = Inr ye"
    using np_linspace_bins [of "snd bins"] "by" by auto
  have res: "fasthist2d xs ys bins ranges (Some w) = Inr (H, xe, ye)"
    using len bc H xe ye by (simp add: fasthist2d_def Let_def kept)
  have nk: "nat k < nat (fst bins * snd bins)" if "k \<in> set ?c" for k
  proof -
    from rng that have "0 \<le> k \<and> k < fst bins * snd bins" by blast
    then show ?thesis by (simp add: nat_less_eq_zless)
  qed
  have inr: "\<forall>(k, v)\<in>set (zip (map nat ?c) w).
               k < length (replicate (nat (fst bins * snd bins)) (0::real))"
  proof (clarify)
    fix k v assume "(k, v) \<in> set (zip (map nat ?c) w)"
    then have "k \<in> set (map nat ?c)" by (rule set_zip_leftD)
    then obtain k' where "k' \<in> set ?c" "k = nat k'" by auto
    then show "k < length (replicate (nat (fst bins * snd bins)) (0::real))"
      using nk by simp
  qed
  have "grid_sum H = sum_list ?flat" by (rule np_reshape_sum [OF H])
  also have "\<dots> = sum_list (map snd (zip (map nat ?c) w))"
    unfolding sum_list_accumulate [OF inr] by (simp add: sum_list_replicate)
  also have "\<dots> = sum_list w" using lc by simp
  finally show ?thesis using res by blast
qed

lemma fasthist2d_Inr:
  assumes "fasthist2d xs ys bins ranges weights = Inr (H, e)" "length xs = length ys"
  shows "\<exists>flat. np_bincount (map (\<lambda>(x, y). lin_index bins ranges x y)
                     (filter (\<lambda>(x, y). cuts ranges x y) (zip xs ys)))
                  (fst bins * snd bins) weights = Inr flat
          \<and> np_reshape flat (snd bins) (fst bins) = Inr H"
  using assms by (auto simp: fasthist2d_def Let_def split: sum.splits)

lemma np_bincount_Inr:
  assumes "\<forall>k\<in>set c. 0 \<le> k \<and> k < m" "0 \<le> m" "np_bincount c m weights = Inr flat"
  shows "flat = accumulate (replicate (nat m) 0)
                  (case weights of None \<Rightarrow> map (\<lambda>k. (nat k, 1)) c | Some w \<Rightarrow> zip (map nat c) w)
       \<and> (\<forall>w. weights = Some w \<longrightarrow> length w = length c)"
proof (cases weights)
  case None
  then show ?thesis using np_bincount_in_range(1) [OF assms(1,2)] assms(3) by simp
next
  case (Some w)
  show ?thesis
  proof (cases "length w = length c")
    case True
    then show ?thesis using np_bincount_in_range(2) [OF assms(1,2) True] assms(3) Some by simp
  next
    case False
    then show ?thesis using np_bincount_length_mismatch [OF False, of m] assms(3) Some by simp
  qed
qed

lemma accumulate_insert_nth:
  assumes "j < length H"
  shows "accumulate H (kws1 @ (k, g) # kws2) ! j
           = accumulate H (kws1 @ kws2) ! j + (if k = j then g else 0)"
  unfolding accumulate_nth [OF assms] by simp

text \<open>One more kept sample adds its weight to one cell of the grid and to no other.\<close>

lemma fasthist2d_one_more_sample:
  assumes l1: "length xs1 = length ys1" and l2: "length xs2 = length ys2"
      and bx: "0 < fst bins" and "by": "0 < snd bins"
      and ct: "cuts ranges x y"
      and wt: "(weights = None \<and> weights' = None \<and> g = 1)
             \<or> (\<exists>w1 w2. length w1 = length (filter (\<lambda>(x, y). cuts ranges x y) (zip xs1 ys1))
                    \<and> weights = Some (w1 @ g # w2) \<and> weights' = Some (w1 @ w2))"
      and H: "fasthist2d (xs1 @ x # xs2) (ys1 @ y # ys2) bins ranges weights = Inr (H, e)"
      and H': "fasthist2d (xs1 @ xs2) (ys1 @ ys2) bins ranges weights' = Inr (H', e')"
      and r: "r < nat (snd bins)" and c: "c < nat (fst bins)"
  shows "H ! r ! c = H' ! r ! c
           + (if int c = bin_index (fst ranges) (fst bins) x
                \<and> int r = bin_index (snd ranges) (snd bins) y then g else 0)"
proof -
  let ?lin = "\<lambda>(x, y). lin_index bins ranges x y"
  let ?k1 = "filter (\<lambda>(x, y). cuts ranges x y) (zip xs1 ys1)"
  let ?k2 = "filter (\<lambda>(x, y). cuts ranges x y) (zip xs2 ys2)"
  let ?m = "fst bins * snd bins"
  have z: "filter (\<lambda>(x, y). cuts ranges x y) (zip (xs1 @ x # xs2) (ys1 @ y # ys2))
             = ?k1 @ (x, y) # ?k2"
          "filter (\<lambda>(x, y). cuts ranges x y) (zip (xs1 @ xs2) (ys1 @ ys2)) = ?k1 @ ?k2"
    using l1 ct by simp_all
  have lw: "length (xs1 @ x # xs2) = length (ys1 @ y # ys2)" using l1 l2 by simp
  have lo: "length (xs1 @ xs2) = length (ys1 @ ys2)" using l1 l2 by simp
  have m: "0 \<le> ?m" using bx "by" by simp
  have rng: "\<forall>k\<in>set (map ?lin (?k1 @ (x, y) # ?k2)). 0 \<le> k \<and> k < ?m"
    using lin_index_bounds [OF _ bx "by", of ranges] ct by auto
  have rng': "\<forall>k\<in>set (map ?lin (?k1 @ ?k2)). 0 \<le> k \<and> k < ?m"
    using lin_index_bounds [OF _ bx "by", of ranges] by auto
  from fasthist2d_Inr [OF H lw] obtain flat where
    bc: "np_bincount (map ?lin (?k1 @ (x, y) # ?k2)) ?m weights = Inr flat"
    and rs: "np_reshape flat (snd bins) (fst bins) = Inr H" unfolding z by blast
  from fasthist2d_Inr [OF H' lo] obtain flat' where
    bc': "np_bincount (map ?lin (?k1 @ ?k2)) ?m weights' = Inr flat'"
    and rs': "np_reshape flat' (snd bins) (fst bins) = Inr H'" unfolding z by blast
  note f = np_bincount_Inr [OF rng m bc] and f' = np_bincount_Inr [OF rng' m bc']
  have "\<exists>kws1 kws2.
          flat = accumulate (replicate (nat ?m) 0) (kws1 @ (nat (lin_index bins ranges x y), g) # kws2)
        \<and> flat' = accumulate (replicate (nat ?m) 0) (kws1 @ kws2)"
    using wt
  proof (elim disjE exE conjE)
    assume n: "weights = None" "weights' = None" "g = 1"
    have "flat = accumulate (replicate (nat ?m) 0)
             (map (\<lambda>k. (nat k, 1)) (map ?lin ?k1) @ (nat (lin_index bins ranges x y), g)
                # map (\<lambda>k. (nat k, 1)) (map ?lin ?k2))"
      using f n by simp
    moreover have "flat' = accumulate (replicate (nat ?m) 0)
             (map (\<lambda>k. (nat k, 1)) (map ?lin ?k1) @ map (\<lambda>k. (nat k, 1)) (map ?lin ?k2))"
      using f' n by simp
    ultimately show ?thesis by (intro exI conjI)
  next
    fix w1 w2
    assume w: "length w1 = length ?k1" "weights = Some (w1 @ g # w2)" "weights' = Some (w1 @ w2)"
    have "flat = accumulate (replicate (nat ?m) 0)
             (zip (map nat (map ?lin ?k1)) w1 @ (nat (lin_index bins ranges x y), g)
                # zip (map nat (map ?lin ?k2)) w2)"
      using f w(1,2) by simp
    moreover have "flat' = accumulate (replicate (nat ?m) 0)
             (zip (map nat (map ?lin ?k1)) w1 @ zip (map nat (map ?lin ?k2)) w2)"
      using f' w(1,3) by simp
    ultimately show ?thesis by (intro exI conjI)
  qed
  then obtain kws1 kws2 where
    fl: "flat = accumulate (replicate (nat ?m) 0) (kws1 @ (nat (lin_index bins ranges x y), g) # kws2)"
    and fl': "flat' = accumulate (replicate (nat ?m) 0) (kws1 @ kws2)" by blast
  have lf: "length flat = nat (snd bins) * nat (fst bins)"
           "length flat' = nat (snd bins) * nat (fst bins)"
    using bx "by" unfolding fl fl' by (simp_all add: nat_mult_distrib mult.commute)
  from np_reshape_nth [OF _ _ lf(1) r c] bx "by" rs
  have cell: "H ! r ! c = flat ! (c + nat (fst bins) * r)" by auto
  from np_reshape_nth [OF _ _ lf(2) r c] bx "by" rs'
  have cell': "H' ! r ! c = flat' ! (c + nat (fst bins) * r)" by auto
  have "Suc r \<le> nat (snd bins)" using r by simp
  then have "nat (fst bins) * Suc r \<le> nat (fst bins) * nat (snd bins)" by (rule mult_le_mono2)
  then have j: "c + nat (fst bins) * r < length (replicate (nat ?m) (0::real))"
    using c bx "by" by (simp add: nat_mult_distrib)
  have "flat ! (c + nat (fst bins) * r)
          = flat' ! (c + nat (fst bins) * r)
            + (if nat (lin_index bins ranges x y) = c + nat (fst bins) * r then g else 0)"
    unfolding fl fl' by (rule accumulate_insert_nth [OF j])
  then show ?thesis
    unfolding cell cell' lin_index_cell [OF ct bx "by" c] by auto
qed

text \<open>
  C1: the sum over the grid is the sum of the weights of the samples inside both ranges,
  and the call completes when samples fall outside. Without weights this holds
  (\<open>fasthist2d_unweighted_sum\<close>), and with weights it holds when no sample is dropped
  (\<open>fasthist2d_weighted_sum\<close>). With weights and a dropped sample the call raises
  (\<open>fasthist2d_weights_dropped_sample\<close>): the weights reach \<^verbatim>\<open>np.bincount\<close> without the
  mask. The samples \<open>(0.5, 0.5)\<close> and \<open>(2, 0.5)\<close> with weights \<open>[1, 1]\<close>, one bin on each
  axis over \<open>(0, 1)\<close>: the weighted call raises, the unweighted one counts one sample.
\<close>

theorem fasthist2d_weights_outside_raises:
  "fasthist2d [1 / 2, 2] [1 / 2, 1 / 2] (1, 1) ((0, 1), (0, 1)) (Some [1, 1]) = Inl ValueError
   \<and> fasthist2d [1 / 2, 2] [1 / 2, 1 / 2] (1, 1) ((0, 1), (0, 1)) None
       = Inr ([[1]], [0, 1], [0, 1])"
  by code_simp

text \<open>
  C9: a sample with a coordinate at the upper bound of its axis does not pass the mask,
  and the call gives what it gives without the sample, whatever the weights. A sample with
  a coordinate at the lower bound of its axis (the range of that axis not empty, the other
  coordinate inside its range) passes the mask, and its bin index on that axis is 0. When
  the calls with and without a sample that passes the mask both return a grid, either
  without weights or with the weight \<open>g\<close> of the sample at its place among the weights of
  the kept samples, then one cell of the grid holds \<open>g\<close> more with the sample (1 more
  without weights) and every other cell holds the same; that cell lies in column 0 for a
  sample at the lower bound of the first axis and in row 0 for a sample at the lower bound
  of the second.
\<close>

theorem fasthist2d_edge_samples:
  assumes l1: "length xs1 = length ys1" and l2: "length xs2 = length ys2"
      and bx: "0 < fst bins" and "by": "0 < snd bins"
  shows "(x = snd (fst ranges) \<or> y = snd (snd ranges) \<longrightarrow>
            \<not> cuts ranges x y
          \<and> fasthist2d (xs1 @ x # xs2) (ys1 @ y # ys2) bins ranges weights
              = fasthist2d (xs1 @ xs2) (ys1 @ ys2) bins ranges weights)
       \<and> (x = fst (fst ranges) \<and> x < snd (fst ranges)
            \<and> fst (snd ranges) \<le> y \<and> y < snd (snd ranges) \<longrightarrow>
            cuts ranges x y \<and> bin_index (fst ranges) (fst bins) x = 0)
       \<and> (y = fst (snd ranges) \<and> y < snd (snd ranges)
            \<and> fst (fst ranges) \<le> x \<and> x < snd (fst ranges) \<longrightarrow>
            cuts ranges x y \<and> bin_index (snd ranges) (snd bins) y = 0)
       \<and> (cuts ranges x y
            \<and> ((wts = None \<and> wts' = None \<and> g = 1)
               \<or> (\<exists>w1 w2. length w1 = length (filter (\<lambda>(x, y). cuts ranges x y) (zip xs1 ys1))
                      \<and> wts = Some (w1 @ g # w2) \<and> wts' = Some (w1 @ w2)))
            \<and> fasthist2d (xs1 @ x # xs2) (ys1 @ y # ys2) bins ranges wts = Inr (H, e)
            \<and> fasthist2d (xs1 @ xs2) (ys1 @ ys2) bins ranges wts' = Inr (H', e') \<longrightarrow>
            (\<exists>r0<nat (snd bins). \<exists>c0<nat (fst bins).
                (x = fst (fst ranges) \<longrightarrow> c0 = 0) \<and> (y = fst (snd ranges) \<longrightarrow> r0 = 0)
              \<and> (\<forall>r<nat (snd bins). \<forall>c<nat (fst bins).
                    H ! r ! c = H' ! r ! c + (if r = r0 \<and> c = c0 then g else 0))))"
proof -
  have z: "zip (xs1 @ x # xs2) (ys1 @ y # ys2) = zip xs1 ys1 @ (x, y) # zip xs2 ys2"
          "zip (xs1 @ xs2) (ys1 @ ys2) = zip xs1 ys1 @ zip xs2 ys2"
    using l1 by simp_all
  have A: "\<not> cuts ranges x y
          \<and> fasthist2d (xs1 @ x # xs2) (ys1 @ y # ys2) bins ranges weights
              = fasthist2d (xs1 @ xs2) (ys1 @ ys2) bins ranges weights"
    if "x = snd (fst ranges) \<or> y = snd (snd ranges)"
  proof -
    have nc: "\<not> cuts ranges x y" using that by (auto simp: cuts_def)
    then show ?thesis using l1 l2 by (simp add: fasthist2d_def z)
  qed
  have Lx: "cuts ranges x y \<and> bin_index (fst ranges) (fst bins) x = 0"
    if "x = fst (fst ranges) \<and> x < snd (fst ranges)
            \<and> fst (snd ranges) \<le> y \<and> y < snd (snd ranges)"
    using that by (simp add: cuts_def bin_index_lower)
  have Ly: "cuts ranges x y \<and> bin_index (snd ranges) (snd bins) y = 0"
    if "y = fst (snd ranges) \<and> y < snd (snd ranges)
            \<and> fst (fst ranges) \<le> x \<and> x < snd (fst ranges)"
    using that by (simp add: cuts_def bin_index_lower)
  have G: "\<exists>r0<nat (snd bins). \<exists>c0<nat (fst bins).
                (x = fst (fst ranges) \<longrightarrow> c0 = 0) \<and> (y = fst (snd ranges) \<longrightarrow> r0 = 0)
              \<and> (\<forall>r<nat (snd bins). \<forall>c<nat (fst bins).
                    H ! r ! c = H' ! r ! c + (if r = r0 \<and> c = c0 then g else 0))"
    if ct: "cuts ranges x y"
      and wt: "(wts = None \<and> wts' = None \<and> g = 1)
               \<or> (\<exists>w1 w2. length w1 = length (filter (\<lambda>(x, y). cuts ranges x y) (zip xs1 ys1))
                      \<and> wts = Some (w1 @ g # w2) \<and> wts' = Some (w1 @ w2))"
      and H: "fasthist2d (xs1 @ x # xs2) (ys1 @ y # ys2) bins ranges wts = Inr (H, e)"
      and H': "fasthist2d (xs1 @ xs2) (ys1 @ ys2) bins ranges wts' = Inr (H', e')"
  proof -
    let ?c0 = "nat (bin_index (fst ranges) (fst bins) x)"
    let ?r0 = "nat (bin_index (snd ranges) (snd bins) y)"
    from ct have ix: "0 \<le> bin_index (fst ranges) (fst bins) x"
        "bin_index (fst ranges) (fst bins) x < fst bins"
      using bin_index_bounds [of "fst ranges" x "fst bins"] bx by (simp_all add: cuts_def)
    from ct have iy: "0 \<le> bin_index (snd ranges) (snd bins) y"
        "bin_index (snd ranges) (snd bins) y < snd bins"
      using bin_index_bounds [of "snd ranges" y "snd bins"] "by" by (simp_all add: cuts_def)
    have c0: "?c0 < nat (fst bins)" using ix by simp
    have r0: "?r0 < nat (snd bins)" using iy by simp
    have lx: "x = fst (fst ranges) \<longrightarrow> ?c0 = 0" by (simp add: bin_index_lower)
    have ly: "y = fst (snd ranges) \<longrightarrow> ?r0 = 0" by (simp add: bin_index_lower)
    have cell: "H ! r ! c = H' ! r ! c + (if r = ?r0 \<and> c = ?c0 then g else 0)"
      if rc: "r < nat (snd bins)" "c < nat (fst bins)" for r c
    proof -
      have "(int c = bin_index (fst ranges) (fst bins) x
               \<and> int r = bin_index (snd ranges) (snd bins) y) \<longleftrightarrow> (r = ?r0 \<and> c = ?c0)"
        using ix iy by auto
      then show ?thesis
        using fasthist2d_one_more_sample [OF l1 l2 bx "by" ct wt H H' rc] by simp
    qed
    show ?thesis using c0 r0 lx ly cell by blast
  qed
  show ?thesis using A Lx Ly G by blast
qed

theorem fasthist2d_edge_samples_witness:
  "fasthist2d [1, 1 / 2] [1 / 2, 1 / 2] (2, 2) ((0, 1), (0, 1)) (Some [3])
     = fasthist2d [1 / 2] [1 / 2] (2, 2) ((0, 1), (0, 1)) (Some [3])
   \<and> fasthist2d [1 / 2] [1 / 2] (2, 2) ((0, 1), (0, 1)) (Some [3])
       = Inr ([[0, 0], [0, 3]], [0, 1 / 2, 1], [0, 1 / 2, 1])
   \<and> cuts ((0, 1), (0, 1)) 0 (1 / 2) \<and> bin_index (0, 1) 2 0 = 0
   \<and> fasthist2d [0, 1 / 2] [1 / 2, 1 / 2] (2, 2) ((0, 1), (0, 1)) (Some [5, 3])
       = Inr ([[0, 0], [5, 3]], [0, 1 / 2, 1], [0, 1 / 2, 1])
   \<and> (\<exists>r0<2. \<forall>r<2. \<forall>c<2.
         [[0, 0], [5, 3::real]] ! r ! c
           = [[0, 0], [0, 3]] ! r ! c + (if r = r0 \<and> c = 0 then 5 else 0))
   \<and> fasthist2d [0, 1 / 2] [1 / 2, 1 / 2] (2, 2) ((0, 1), (0, 1)) None
       = Inr ([[0, 0], [1, 1]], [0, 1 / 2, 1], [0, 1 / 2, 1])
   \<and> (\<exists>r0<2. \<forall>r<2. \<forall>c<2.
         [[0, 0], [1, 1::real]] ! r ! c
           = [[0, 0], [0, 1]] ! r ! c + (if r = r0 \<and> c = 0 then 1 else 0))"
proof -
  have a0: "fasthist2d ([] @ 0 # [1 / 2]) ([] @ 1 / 2 # [1 / 2]) (2, 2) ((0, 1), (0, 1))
             None = Inr ([[0, 0], [1, 1]], [0, 1 / 2, 1], [0, 1 / 2, 1])"
    by code_simp
  have b0: "fasthist2d ([] @ [1 / 2]) ([] @ [1 / 2]) (2, 2) ((0, 1), (0, 1)) None
             = Inr ([[0, 0], [0, 1]], [0, 1 / 2, 1], [0, 1 / 2, 1])"
    by code_simp
  have a: "fasthist2d ([] @ 0 # [1 / 2]) ([] @ 1 / 2 # [1 / 2]) (2, 2) ((0, 1), (0, 1))
             (Some [5, 3]) = Inr ([[0, 0], [5, 3]], [0, 1 / 2, 1], [0, 1 / 2, 1])"
    by code_simp
  have b: "fasthist2d ([] @ [1 / 2]) ([] @ [1 / 2]) (2, 2) ((0, 1), (0, 1)) (Some [3])
             = Inr ([[0, 0], [0, 3]], [0, 1 / 2, 1], [0, 1 / 2, 1])"
    by code_simp
  have w: "\<exists>w1 w2. length w1 = length (filter (\<lambda>(x, y). cuts ((0, 1), (0, 1)) x y) (zip [] []))
             \<and> Some [5, 3::real] = Some (w1 @ 5 # w2) \<and> Some [3] = Some (w1 @ w2)"
    by (intro exI [of _ "[]"] exI [of _ "[3]"]) simp
  have ct: "cuts ((0, 1), (0, 1)) 0 (1 / 2)" by (simp add: cuts_def)
  from fasthist2d_edge_samples [of "[]" "[]" "[1 / 2]" "[1 / 2]" "(2, 2)" 0 "((0, 1), (0, 1))"
         "1 / 2" None "Some [5, 3]" "Some [3]" 5 "[[0, 0], [5, 3]]"
         "([0, 1 / 2, 1], [0, 1 / 2, 1])" "[[0, 0], [0, 3]]" "([0, 1 / 2, 1], [0, 1 / 2, 1])"]
    a b w ct
  have lower: "bin_index (0, 1) 2 0 = 0
     \<and> (\<exists>r0<2. \<forall>r<2. \<forall>c<2.
         [[0, 0], [5, 3::real]] ! r ! c
           = [[0, 0], [0, 3]] ! r ! c + (if r = r0 \<and> c = 0 then 5 else 0))"
    by (simp add: numeral_2_eq_2 [symmetric])
  from fasthist2d_edge_samples [of "[]" "[]" "[1 / 2]" "[1 / 2]" "(2, 2)" 1 "((0, 1), (0, 1))"
         "1 / 2" "Some [3]"]
  have upper: "fasthist2d [1, 1 / 2] [1 / 2, 1 / 2] (2, 2) ((0, 1), (0, 1)) (Some [3])
     = fasthist2d [1 / 2] [1 / 2] (2, 2) ((0, 1), (0, 1)) (Some [3])"
    by simp
  from fasthist2d_edge_samples [of "[]" "[]" "[1 / 2]" "[1 / 2]" "(2, 2)" 0 "((0, 1), (0, 1))"
         "1 / 2" None None None 1 "[[0, 0], [1, 1]]"
         "([0, 1 / 2, 1], [0, 1 / 2, 1])" "[[0, 0], [0, 1]]" "([0, 1 / 2, 1], [0, 1 / 2, 1])"]
    a0 b0 ct
  have unweighted: "\<exists>r0<2. \<forall>r<2. \<forall>c<2.
         [[0, 0], [1, 1::real]] ! r ! c
           = [[0, 0], [0, 1]] ! r ! c + (if r = r0 \<and> c = 0 then 1 else 0)"
    by (simp add: numeral_2_eq_2 [symmetric])
  show ?thesis using lower upper unweighted a b a0 ct by simp
qed

section \<open>Properties of the Multidimensional Grid Display\<close>

lemma length_colorbar_calls_append:
  "calls f' = calls f @ ext \<Longrightarrow>
   length (colorbar_calls f') = length (colorbar_calls f) + length (filter (\<lambda>(a, c). is_colorbar c) ext)"
  by (simp add: colorbar_calls_def)

lemma plot_distr2d_effect:
  assumes "plot_distr2d xarr yarr bins ranges fig ax labels cmap logz ztitle title units weights cbar = Inr f'"
  shows "live f' = live fig @ (if cbar then [fresh fig] else [])"
    and "fresh f' = fresh fig + (if cbar then 1 else 0)"
    and "\<exists>ext. calls f' = calls fig @ ext \<and> (\<forall>(a, c)\<in>set ext. c \<noteq> Remove)
            \<and> length (filter (\<lambda>(a, c). is_colorbar c) ext) = (if cbar then 1 else 0)"
  using assms
  by (auto simp: plot_distr2d_def Let_def split: sum.splits prod.splits option.splits if_splits)

lemma fold_remove_effect:
  "calls (fold (\<lambda>a f. remove f a) as f) = calls f @ map (\<lambda>a. (a, Remove)) as"
  "live (fold (\<lambda>a f. remove f a) as f) = filter (\<lambda>a. a \<notin> set as) (live f)"
  "fresh (fold (\<lambda>a f. remove f a) as f) = fresh f"
proof (induction as arbitrary: f)
  case Nil
  { case 1 show ?case by simp }
  { case 2 show ?case by simp }
  { case 3 show ?case by simp }
next
  case (Cons a as)
  { case 1 show ?case by (simp add: Cons.IH) }
  { case 2 show ?case by (auto simp: Cons.IH removeAll_filter_not_eq intro!: filter_cong) }
  { case 3 show ?case by (simp add: Cons.IH) }
qed


lemma upt_shift: "[m..<m + Suc n] = m # [Suc m..<Suc m + n]"
proof -
  have "m < m + Suc n" by simp
  from upt_conv_Cons [OF this] show ?thesis by (simp del: upt_Suc)
qed

lemma draw_1d_effect:
  assumes "draw_1d F s sw f acc is = Inr (newaxes, f')"
  shows "newaxes = acc @ [fresh f..<fresh f + length is]
       \<and> live f' = live f @ [fresh f..<fresh f + length is]
       \<and> fresh f' = fresh f + length is
       \<and> (\<exists>ext. calls f' = calls f @ ext
            \<and> (\<forall>(a, c)\<in>set ext. c \<noteq> Remove \<and> \<not> is_colorbar c)
            \<and> (\<forall>a\<in>set [fresh f..<fresh f + length is]. \<exists>ax. (ax, Twinx a) \<in> set ext))"
  using assms
proof (induction "is" arbitrary: f acc)
  case Nil
  then show ?case by simp
next
  case (Cons i "is")
  from Cons.prems obtain ax di ni bi ri li newax f2 where
        pd: "plot_distr1d_comparison F di ni bi ri (ax_call f ax Clear) ax li
               (cmp_defaults\<lparr>opt_weights := Some sw, opt_pull := True, opt_data_alpha := 3 / 10\<rparr>)
             = Inr (newax, f2)"
    and rec: "draw_1d F s sw f2 (acc @ newax) is = Inr (newaxes, f')"
    by (auto split: sum.splits prod.splits)
  have pull: "opt_pull (cmp_defaults\<lparr>opt_weights := Some sw, opt_pull := True, opt_data_alpha := 3 / 10\<rparr>)"
    by simp
  from plot_distr1d_comparison_effect [OF pd] pull
  have nx: "newax = [fresh f]" and l2: "live f2 = live f @ [fresh f]"
    and fr2: "fresh f2 = Suc (fresh f)"
    and "\<exists>ext. calls f2 = calls (ax_call f ax Clear) @ ext
            \<and> (\<forall>(a, c)\<in>set ext. c \<noteq> Remove \<and> \<not> is_colorbar c)
            \<and> (ax, Twinx (fresh f)) \<in> set ext"
    by simp_all
  then obtain e2 where e2: "calls f2 = calls f @ (ax, Clear) # e2"
      "\<forall>(a, c)\<in>set e2. c \<noteq> Remove \<and> \<not> is_colorbar c" "(ax, Twinx (fresh f)) \<in> set e2"
    by auto
  from Cons.IH [OF rec] obtain e3 where
        na: "newaxes = (acc @ newax) @ [fresh f2..<fresh f2 + length is]"
    and l3: "live f' = live f2 @ [fresh f2..<fresh f2 + length is]"
    and fr3: "fresh f' = fresh f2 + length is"
    and e3: "calls f' = calls f2 @ e3" "\<forall>(a, c)\<in>set e3. c \<noteq> Remove \<and> \<not> is_colorbar c"
       "\<forall>a\<in>set [fresh f2..<fresh f2 + length is]. \<exists>ax. (ax, Twinx a) \<in> set e3"
    by blast
  have up: "[fresh f..<fresh f + length (i # is)] = fresh f # [fresh f2..<fresh f2 + length is]"
    unfolding fr2 using upt_shift [of "fresh f" "length is"] by (simp del: upt_Suc)
  have c: "calls f' = calls f @ ((ax, Clear) # e2 @ e3)" using e2(1) e3(1) by simp
  have b: "\<forall>(a, c)\<in>set ((ax, Clear) # e2 @ e3). c \<noteq> Remove \<and> \<not> is_colorbar c"
    using e2(2) e3(2) by auto
  have t: "\<forall>a\<in>set [fresh f..<fresh f + length (i # is)]. \<exists>ax'. (ax', Twinx a) \<in> set ((ax, Clear) # e2 @ e3)"
    unfolding up using e2(3) e3(3) by (metis Un_iff list.set_intros(2) set_ConsD set_append)
  show ?case
    using na l3 fr3 nx l2 fr2 up c b t by (intro conjI exI [of _ "(ax, Clear) # e2 @ e3"]) simp_all
qed

lemma draw_2d_effect:
  assumes "draw_2d s sw f ps = Inr f'"
  shows "fresh f' = fresh f + (if md_first s then length ps else 0)
       \<and> live f' = live f @ [fresh f..<fresh f']
       \<and> (\<exists>ext. calls f' = calls f @ ext
            \<and> (\<forall>(a, c)\<in>set ext. c \<noteq> Remove)
            \<and> length (filter (\<lambda>(a, c). is_colorbar c) ext) = (if md_first s then length ps else 0))"
  using assms
proof (induction ps arbitrary: f)
  case Nil
  then show ?case by simp
next
  case (Cons p ps)
  obtain n i j where p: "p = (n, i, j)" by (cases p) auto
  from Cons.prems obtain ax2 xi xj bi bj ri rj li lj f2 where
        pd: "plot_distr2d xi xj (bi, bj) (ri, rj) (ax_call f ax2 Clear) ax2 (li, lj) (md_cmap s)
               False None None (None, None) (Some sw) (md_first s) = Inr f2"
    and rec: "draw_2d s sw f2 ps = Inr f'"
    unfolding p by (auto split: sum.splits prod.splits)
  from plot_distr2d_effect [OF pd] obtain e2 where
        l2: "live f2 = live f @ (if md_first s then [fresh f] else [])"
    and fr2: "fresh f2 = fresh f + (if md_first s then 1 else 0)"
    and e2: "calls f2 = calls f @ (ax2, Clear) # e2" "\<forall>(a, c)\<in>set e2. c \<noteq> Remove"
        "length (filter (\<lambda>(a, c). is_colorbar c) e2) = (if md_first s then 1 else 0)"
    by auto
  from Cons.IH [OF rec] obtain e3 where
        fr3: "fresh f' = fresh f2 + (if md_first s then length ps else 0)"
    and l3: "live f' = live f2 @ [fresh f2..<fresh f']"
    and e3: "calls f' = calls f2 @ e3" "\<forall>(a, c)\<in>set e3. c \<noteq> Remove"
        "length (filter (\<lambda>(a, c). is_colorbar c) e3) = (if md_first s then length ps else 0)"
    by blast
  have c: "calls f' = calls f @ ((ax2, Clear) # e2 @ e3)" using e2(1) e3(1) by simp
  have b: "\<forall>(a, c)\<in>set ((ax2, Clear) # e2 @ e3). c \<noteq> Remove" using e2(2) e3(2) by auto
  have n: "length (filter (\<lambda>(a, c). is_colorbar c) ((ax2, Clear) # e2 @ e3))
             = (if md_first s then length (p # ps) else 0)"
    using e2(3) e3(3) by simp
  have fr: "fresh f' = fresh f + (if md_first s then length (p # ps) else 0)"
    using fr2 fr3 by simp
  have l: "live f' = live f @ [fresh f..<fresh f']"
  proof (cases "md_first s")
    case True
    then have "fresh f' = fresh f + Suc (length ps)" "fresh f2 = Suc (fresh f)"
      using fr2 fr3 by simp_all
    then show ?thesis
      using l2 l3 True upt_shift [of "fresh f" "length ps"] by (simp del: upt_Suc)
  next
    case False
    then show ?thesis using l2 l3 fr2 fr3 by simp
  qed
  show ?case using fr l c b n by blast
qed

lemma length_panel_pairs: "length (panel_pairs d) = d * (d - 1) div 2"
proof -
  have "length (concat (map (\<lambda>i. map (\<lambda>j. (i, j)) [0..<i]) [0..<d])) = d * (d - 1) div 2"
  proof (induction d)
    case 0
    then show ?case by simp
  next
    case (Suc d)
    have "d * (d - 1) div 2 + d = Suc d * d div 2"
      by (cases d) (simp_all add: algebra_simps)
    with Suc show ?case by simp
  qed
  then show ?thesis by (simp add: panel_pairs_def Let_def)
qed

lemma construct_initial:
  assumes "construct data nrm bins ranges labels fig axes units cmap = Inr s0"
  shows "md_newaxes s0 = []" "md_first s0" "md_dim s0 = length (columns data)"
  using assms by (auto simp: construct_def Let_def split: sum.splits)

lemma draw_effect:
  assumes d: "draw F s w = Inr s'"
  shows "md_newaxes s' = [fresh (md_fig s)..<fresh (md_fig s) + md_dim s]"
    and "md_dim s' = md_dim s"
    and "\<not> md_first s'"
    and "fresh (md_fig s') = fresh (md_fig s) + md_dim s
           + (if md_first s then length (panel_pairs (md_dim s)) else 0)"
    and "live (md_fig s') = filter (\<lambda>a. a \<notin> set (md_newaxes s)) (live (md_fig s))
           @ [fresh (md_fig s)..<fresh (md_fig s')]"
    and "\<exists>rest. calls (md_fig s') = calls (md_fig s) @ map (\<lambda>a. (a, Remove)) (md_newaxes s) @ rest
           \<and> (\<forall>(a, c)\<in>set rest. c \<noteq> Remove)
           \<and> length (filter (\<lambda>(a, c). is_colorbar c) rest)
               = (if md_first s then length (panel_pairs (md_dim s)) else 0)
           \<and> (\<forall>a\<in>set (md_newaxes s'). \<exists>ax. (ax, Twinx a) \<in> set rest)"
proof -
  let ?f0 = "fold (\<lambda>a f. remove f a) (md_newaxes s) (md_fig s)"
  from d obtain sw newaxes f1 f2 where
        d1: "draw_1d F s sw ?f0 [] [0..<md_dim s] = Inr (newaxes, f1)"
    and d2: "draw_2d s sw f1 (panel_pairs (md_dim s)) = Inr f2"
    and s': "s' = s\<lparr>md_fig := f2, md_newaxes := newaxes, md_first := False\<rparr>"
    unfolding draw_def Let_def by (auto split: sum.splits prod.splits)
  from draw_1d_effect [OF d1] obtain e1 where
        na: "newaxes = [fresh (md_fig s)..<fresh (md_fig s) + md_dim s]"
    and l1: "live f1 = live ?f0 @ [fresh (md_fig s)..<fresh (md_fig s) + md_dim s]"
    and fr1: "fresh f1 = fresh (md_fig s) + md_dim s"
    and e1: "calls f1 = calls ?f0 @ e1" "\<forall>(a, c)\<in>set e1. c \<noteq> Remove \<and> \<not> is_colorbar c"
       "\<forall>a\<in>set [fresh (md_fig s)..<fresh (md_fig s) + md_dim s]. \<exists>ax. (ax, Twinx a) \<in> set e1"
    by (auto simp: fold_remove_effect)
  from draw_2d_effect [OF d2] obtain e2 where
        fr2: "fresh f2 = fresh f1 + (if md_first s then length (panel_pairs (md_dim s)) else 0)"
    and l2: "live f2 = live f1 @ [fresh f1..<fresh f2]"
    and e2: "calls f2 = calls f1 @ e2" "\<forall>(a, c)\<in>set e2. c \<noteq> Remove"
       "length (filter (\<lambda>(a, c). is_colorbar c) e2)
          = (if md_first s then length (panel_pairs (md_dim s)) else 0)"
    by blast
  show "md_newaxes s' = [fresh (md_fig s)..<fresh (md_fig s) + md_dim s]"
    using s' na by simp
  show "md_dim s' = md_dim s" using s' by simp
  show "\<not> md_first s'" using s' by simp
  show "fresh (md_fig s') = fresh (md_fig s) + md_dim s
           + (if md_first s then length (panel_pairs (md_dim s)) else 0)"
    using s' fr1 fr2 by simp
  define k where "k = (if md_first s then length (panel_pairs (md_dim s)) else 0)"
  have f2k: "fresh f2 = (fresh (md_fig s) + md_dim s) + k" using fr1 fr2 k_def by simp
  have "[fresh (md_fig s)..<(fresh (md_fig s) + md_dim s) + k]
          = [fresh (md_fig s)..<fresh (md_fig s) + md_dim s]
            @ [fresh (md_fig s) + md_dim s..<(fresh (md_fig s) + md_dim s) + k]"
    by (rule upt_add_eq_append) simp
  then have "[fresh (md_fig s)..<fresh f2]
          = [fresh (md_fig s)..<fresh (md_fig s) + md_dim s] @ [fresh f1..<fresh f2]"
    unfolding f2k fr1 .
  then show "live (md_fig s') = filter (\<lambda>a. a \<notin> set (md_newaxes s)) (live (md_fig s))
           @ [fresh (md_fig s)..<fresh (md_fig s')]"
    using s' l1 l2 by (simp add: fold_remove_effect)
  have c: "calls f2 = calls (md_fig s) @ map (\<lambda>a. (a, Remove)) (md_newaxes s) @ (e1 @ e2)"
    using e1(1) e2(1) by (simp add: fold_remove_effect)
  have nr: "\<forall>(a, c)\<in>set (e1 @ e2). c \<noteq> Remove" using e1(2) e2(2) by auto
  have f1: "filter (\<lambda>(a, c). is_colorbar c) e1 = []" using e1(2) by (auto simp: filter_empty_conv)
  have cb: "length (filter (\<lambda>(a, c). is_colorbar c) (e1 @ e2))
               = (if md_first s then length (panel_pairs (md_dim s)) else 0)"
    using e2(3) f1 by simp
  have tw: "\<forall>a\<in>set (md_newaxes s'). \<exists>ax. (ax, Twinx a) \<in> set (e1 @ e2)"
    using e1(3) s' na by auto
  show "\<exists>rest. calls (md_fig s') = calls (md_fig s) @ map (\<lambda>a. (a, Remove)) (md_newaxes s) @ rest
           \<and> (\<forall>(a, c)\<in>set rest. c \<noteq> Remove)
           \<and> length (filter (\<lambda>(a, c). is_colorbar c) rest)
               = (if md_first s then length (panel_pairs (md_dim s)) else 0)
           \<and> (\<forall>a\<in>set (md_newaxes s'). \<exists>ax. (ax, Twinx a) \<in> set rest)"
    using c nr cb tw s' by (intro exI [of _ "e1 @ e2"]) simp
qed

lemma draws_invariant:
  assumes "draws F s ws = Inr s'"
      and "\<forall>a\<in>set (md_newaxes s). a < fresh (md_fig s)"
  shows "(\<forall>a\<in>set (md_newaxes s'). a < fresh (md_fig s'))
       \<and> md_dim s' = md_dim s
       \<and> (ws = [] \<longrightarrow> s' = s)
       \<and> (ws \<noteq> [] \<longrightarrow> \<not> md_first s' \<and> length (md_newaxes s') = md_dim s)"
  using assms
proof (induction ws arbitrary: s)
  case Nil
  then show ?case by simp
next
  case (Cons w ws)
  from Cons.prems(1) obtain s1 where d: "draw F s w = Inr s1" and r: "draws F s1 ws = Inr s'"
    by (auto split: sum.splits)
  note e = draw_effect [OF d]
  have inv1: "\<forall>a\<in>set (md_newaxes s1). a < fresh (md_fig s1)"
    using e(1) e(4) by auto
  from Cons.IH [OF r inv1] e(1,2,3) show ?case
    by (cases ws) auto
qed

lemma ex_construct:
  "construct ex_data ex_data [1, 1] [(0, 1), (0, 1)] [''x'', ''y''] ex_fig
              [[0, 1], [2, 3]] None ''jet'' = Inr ex_display0"
proof -
  have "\<not> isl (construct ex_data ex_data [1, 1] [(0, 1), (0, 1)] [''x'', ''y''] ex_fig
              [[0, 1], [2, 3]] None ''jet'')"
    by code_simp
  then show ?thesis unfolding ex_display0_def by simp
qed

lemmas eval_defs =
  draw_def draw_1d.simps draw_2d.simps panel_pairs_def draw_panel_def init_panel_def
  axes_at_def column_def nth_err_def plot_distr1d_comparison_def plot_distr2d_def
  np_histogram_def hist_range_def hist_edges_def hist_bin_def fasthist2d_def cuts_def
  lin_index_def bin_index_def astype_int_def np_bincount_def np_reshape_def np_linspace_def
  log_norm_def np_meshgrid_def label_title_def y_label_title_def comparison_frame_def
  pull_panel_def pull_hist_def pull_quotient_def np_divide_def np_sqrt_def twinx_def
  colorbar_def remove_def ax_call_def fitscale_of_def rescale_def step_dup_def step_edges_def bin_centers_def cmp_defaults_def
  truthy_def Let_def ex_fmt_def ex_fig_def ex_data_def construct_def init_panels.simps

lemma construct_fields:
  assumes "construct data nrm bins ranges labels fig axes units cmap = Inr s0"
  shows "md_dim s0 = length (columns data)" "md_data s0 = data" "md_norm s0 = nrm"
    "md_bins s0 = bins" "md_ranges s0 = ranges" "md_labels s0 = labels" "md_axes s0 = axes"
    "md_cmap s0 = cmap" "md_size s0 = shape0 data" "md_first s0" "md_newaxes s0 = []"
  using assms by (auto simp: construct_def Let_def split: sum.splits)

lemmas ex_display0_fields = construct_fields [OF ex_construct]

lemma draw_fields:
  assumes "draw F s w = Inr s'"
  shows "md_data s' = md_data s" "md_norm s' = md_norm s" "md_bins s' = md_bins s"
    "md_ranges s' = md_ranges s" "md_labels s' = md_labels s" "md_axes s' = md_axes s"
    "md_cmap s' = md_cmap s" "md_size s' = md_size s"
  using assms unfolding draw_def Let_def by (auto split: sum.splits prod.splits)

lemma ex_draw1: "draw ex_fmt ex_display0 [1] = Inr ex_display1"
proof -
  have "\<not> isl (draw ex_fmt ex_display0 [1])"
    by (simp add: eval_defs ex_display0_fields numeral_2_eq_2)
  then show ?thesis unfolding ex_display1_def by simp
qed

lemmas ex_display1_fields =
  draw_fields [OF ex_draw1, unfolded ex_display0_fields]
  draw_effect(2,3) [OF ex_draw1, unfolded ex_display0_fields]

lemma ex_draw2: "draw ex_fmt ex_display1 [1] = Inr ex_display2"
proof -
  have "\<not> isl (draw ex_fmt ex_display1 [1])"
    by (simp add: eval_defs ex_display1_fields numeral_2_eq_2)
  then show ?thesis unfolding ex_display2_def by simp
qed

lemma ex_draws1: "draws ex_fmt ex_display0 [[1]] = Inr ex_display1"
  by (simp add: ex_draw1)

text \<open>
  C7: for a display constructed over \<open>d\<close>-dimensional data, after every call of
  \<^verbatim>\<open>draw\<close> that returns, the first as well as any later one, the display tracks exactly
  \<open>d\<close> overlay surfaces, all distinct and all in the figure; the overlays tracked before
  the call are no longer in the figure and none of them is tracked again; and the call
  starts by removing every overlay tracked before, after which it removes nothing and
  creates each of the new overlays.
\<close>

theorem draw_overlays_do_not_accumulate:
  assumes c: "construct data nrm bins ranges labels fig axes units cmap = Inr s0"
      and ds: "draws F s0 ws = Inr s"
      and d: "draw F s w = Inr s'"
  shows "length (md_newaxes s') = length (columns data)
       \<and> distinct (md_newaxes s')
       \<and> set (md_newaxes s') \<subseteq> set (live (md_fig s'))
       \<and> set (md_newaxes s) \<inter> set (live (md_fig s')) = {}
       \<and> set (md_newaxes s) \<inter> set (md_newaxes s') = {}
       \<and> (ws \<noteq> [] \<longrightarrow> length (md_newaxes s) = length (columns data))
       \<and> (\<exists>rest. calls (md_fig s')
                    = calls (md_fig s) @ map (\<lambda>a. (a, Remove)) (md_newaxes s) @ rest
              \<and> (\<forall>(a, c)\<in>set rest. c \<noteq> Remove)
              \<and> (\<forall>a\<in>set (md_newaxes s'). \<exists>ax. (ax, Twinx a) \<in> set rest))"
proof -
  note c0 = construct_initial [OF c]
  have inv0: "\<forall>a\<in>set (md_newaxes s0). a < fresh (md_fig s0)" using c0(1) by simp
  from draws_invariant [OF ds inv0] c0(3)
  have inv: "\<forall>a\<in>set (md_newaxes s). a < fresh (md_fig s)"
    and dim: "md_dim s = length (columns data)"
    and len: "ws \<noteq> [] \<longrightarrow> length (md_newaxes s) = length (columns data)"
    by simp_all
  note e = draw_effect [OF d]
  have n: "md_newaxes s' = [fresh (md_fig s)..<fresh (md_fig s) + md_dim s]" by (rule e(1))
  have le: "fresh (md_fig s) + md_dim s \<le> fresh (md_fig s')" using e(4) by simp
  have 1: "length (md_newaxes s') = length (columns data)" using n dim by simp
  have 2: "distinct (md_newaxes s')" using n by simp
  have 3: "set (md_newaxes s') \<subseteq> set (live (md_fig s'))"
    unfolding e(5) n using le by auto
  have 4: "set (md_newaxes s) \<inter> set (live (md_fig s')) = {}"
    unfolding e(5) using inv by auto
  have 5: "set (md_newaxes s) \<inter> set (md_newaxes s') = {}"
    unfolding n using inv by auto
  from e(6) obtain rest where
    r: "calls (md_fig s') = calls (md_fig s) @ map (\<lambda>a. (a, Remove)) (md_newaxes s) @ rest"
       "\<forall>(a, c)\<in>set rest. c \<noteq> Remove"
       "\<forall>a\<in>set (md_newaxes s'). \<exists>ax. (ax, Twinx a) \<in> set rest"
    by blast
  show ?thesis using 1 2 3 4 5 len r by blast
qed

theorem draw_overlays_do_not_accumulate_witness:
  "length (md_newaxes ex_display1) = 2 \<and> length (md_newaxes ex_display2) = 2
   \<and> set (md_newaxes ex_display1) \<inter> set (live (md_fig ex_display2)) = {}"
  using draw_overlays_do_not_accumulate [OF ex_construct ex_draws1 ex_draw2]
  by (simp add: ex_data_def)

text \<open>
  C8: the flag \<open>first\<close> is true after construction, it is true at a call of \<^verbatim>\<open>draw\<close>
  exactly when no call has returned before, and it is false after every call that returns.
  The call hands the flag to the redraws of its 2D panels: the first call attaches one
  colour bar to each of the \<open>d (d - 1) / 2\<close> panels, every later call attaches none.
\<close>

theorem colorbar_on_first_draw_only:
  assumes c: "construct data nrm bins ranges labels fig axes units cmap = Inr s0"
      and ds: "draws F s0 ws = Inr s"
      and d: "draw F s w = Inr s'"
  shows "md_first s0
       \<and> md_first s = (ws = [])
       \<and> \<not> md_first s'
       \<and> length (colorbar_calls (md_fig s'))
           = length (colorbar_calls (md_fig s))
             + (if ws = [] then length (columns data) * (length (columns data) - 1) div 2 else 0)"
proof -
  note c0 = construct_initial [OF c]
  have inv0: "\<forall>a\<in>set (md_newaxes s0). a < fresh (md_fig s0)" using c0(1) by simp
  from draws_invariant [OF ds inv0] c0
  have dim: "md_dim s = length (columns data)" and fst: "md_first s = (ws = [])"
    by auto
  note e = draw_effect [OF d]
  from e(6) obtain rest where
    r: "calls (md_fig s') = calls (md_fig s) @ (map (\<lambda>a. (a, Remove)) (md_newaxes s) @ rest)"
       "length (filter (\<lambda>(a, c). is_colorbar c) rest)
               = (if md_first s then length (panel_pairs (md_dim s)) else 0)"
    by auto
  have "filter (\<lambda>(a, c). is_colorbar c) (map (\<lambda>a. (a, Remove)) (md_newaxes s)) = []"
    by (simp add: filter_empty_conv)
  then have "length (colorbar_calls (md_fig s'))
           = length (colorbar_calls (md_fig s))
             + (if md_first s then length (panel_pairs (md_dim s)) else 0)"
    unfolding length_colorbar_calls_append [OF r(1)] using r(2) by simp
  then show ?thesis using c0(2) fst e(3) dim by (simp add: length_panel_pairs)
qed

theorem colorbar_on_first_draw_only_witness:
  "md_first ex_display0 \<and> \<not> md_first ex_display1 \<and> \<not> md_first ex_display2
   \<and> length (colorbar_calls (md_fig ex_display1))
       = length (colorbar_calls (md_fig ex_display0)) + 1
   \<and> length (colorbar_calls (md_fig ex_display2))
       = length (colorbar_calls (md_fig ex_display1))"
proof -
  have d0: "draws ex_fmt ex_display0 [] = Inr ex_display0" by simp
  from colorbar_on_first_draw_only [OF ex_construct d0 ex_draw1]
    colorbar_on_first_draw_only [OF ex_construct ex_draws1 ex_draw2]
  show ?thesis by (simp add: ex_data_def)
qed


end
